theory Spec2Isabelle
  imports Main "HOL-Library.Sublist" "HOL-Library.Monad_Syntax"
begin

section \<open>Strings\<close>



subsection \<open>Lower case\<close>








subsection \<open>Substrings\<close>


section \<open>Numbers as text\<close>

text \<open>
  \<open>Number.prototype.toString\<close> on an integer, as in \<open>Date.now().toString()\<close>: the
  decimal digits, with a minus sign before a negative number. JavaScript prints an
  integer this way when its absolute value is below \<open>10^21\<close>; time values are below
  \<open>8.64 * 10^15\<close>. \<open>JSON.stringify\<close> writes a number the same way.
\<close>

definition digit_char :: "nat \<Rightarrow> char" where
  "digit_char d = ''0123456789'' ! (d mod 10)"

fun digits :: "nat \<Rightarrow> string" where
  "digits n = (if n < 10 then [digit_char n] else digits (n div 10) @ [digit_char (n mod 10)])"

declare digits.simps [simp del]

definition toString :: "int \<Rightarrow> string" where
  "toString i = (if i < 0 then CHR ''-'' # digits (nat (- i)) else digits (nat i))"

section \<open>JSON\<close>

text \<open>
  \<open>JSON.stringify\<close> and \<open>JSON.parse\<close> are built into the language; the pages use them to
  write the collection to \<open>localStorage\<close> and to read it back. They are modelled after
  ECMA-404 and the ECMAScript specification of the two functions, on the values that the
  pages store: \<open>null\<close>, booleans, integers, strings, arrays and objects. An object is the
  list of its members in the order of the text.
\<close>

datatype json =
    JNull
  | JBool bool
  | JNumber int
  | JString string
  | JArray "json list"
  | JObject "(string \<times> json) list"

subsection \<open>Writing\<close>

text \<open>
  \<open>QuoteJSONString\<close>: a string is written between double quotes (\<open>CHR 0x22\<close>); the double
  quote and the backslash (\<open>CHR 0x5C\<close>) are written after a backslash; backspace, tab,
  line feed, form feed and carriage return have the short escapes \<open>\b \t \n \f \r\<close>; any
  other code unit below U+0020 is written as \<open>\u00XX\<close> with lowercase hexadecimal digits;
  every other code unit is written as it is.
\<close>

definition hex_char :: "nat \<Rightarrow> char" where
  "hex_char d = ''0123456789abcdef'' ! (d mod 16)"

definition quote_char :: "char \<Rightarrow> string" where
  "quote_char c =
     (if c = CHR 0x08 then [CHR 0x5C, CHR ''b'']
      else if c = CHR 0x09 then [CHR 0x5C, CHR ''t'']
      else if c = CHR 0x0A then [CHR 0x5C, CHR ''n'']
      else if c = CHR 0x0C then [CHR 0x5C, CHR ''f'']
      else if c = CHR 0x0D then [CHR 0x5C, CHR ''r'']
      else if c = CHR 0x22 then [CHR 0x5C, CHR 0x22]
      else if c = CHR 0x5C then [CHR 0x5C, CHR 0x5C]
      else if (of_char c :: nat) < 32
        then [CHR 0x5C, CHR ''u'', CHR ''0'', CHR ''0'',
              hex_char (of_char c div 16), hex_char (of_char c mod 16)]
      else [c])"

definition quote :: "string \<Rightarrow> string" where
  "quote s = CHR 0x22 # concat (map quote_char s) @ [CHR 0x22]"

text \<open>
  \<open>JSON.stringify(value)\<close> with no indentation: no white space, a comma between the
  elements of an array and the members of an object, a colon after the name of a member.
\<close>

fun JSON_stringify :: "json \<Rightarrow> string"
  and stringify_elements :: "json list \<Rightarrow> string"
  and stringify_members :: "(string \<times> json) list \<Rightarrow> string" where
  "JSON_stringify JNull = ''null''"
| "JSON_stringify (JBool b) = (if b then ''true'' else ''false'')"
| "JSON_stringify (JNumber i) = toString i"
| "JSON_stringify (JString s) = quote s"
| "JSON_stringify (JArray vs) = CHR ''['' # stringify_elements vs @ '']''"
| "JSON_stringify (JObject kvs) = CHR ''{'' # stringify_members kvs @ ''}''"
| "stringify_elements [] = []"
| "stringify_elements [v] = JSON_stringify v"
| "stringify_elements (v # w # vs) = JSON_stringify v @ CHR '','' # stringify_elements (w # vs)"
| "stringify_members [] = []"
| "stringify_members [(k, v)] = quote k @ CHR '':'' # JSON_stringify v"
| "stringify_members ((k, v) # m # kvs) =
     quote k @ CHR '':'' # JSON_stringify v @ CHR '','' # stringify_members (m # kvs)"

subsection \<open>Reading\<close>

text \<open>
  The outcome of \<open>JSON.parse\<close> is a value, or the exception \<open>SyntaxError\<close>. Two more
  outcomes mark the limits of the model. \<open>OutsideModel\<close>: the text goes on with a value
  that the model does not represent, a number with a fraction or an exponent, or an
  escape \<open>\uXXXX\<close> above U+00FF; the model says nothing about such a text. \<open>OutOfFuel\<close>:
  the recursion through nested arrays and objects counts down a number, and this is the
  outcome at zero; \<open>JSON_parse\<close> starts with enough for any text (lemma
  \<open>JSON_parse_fuel\<close>), so it never has this outcome.
\<close>

datatype parse_error = SyntaxError | OutsideModel | OutOfFuel

text \<open>White space is space, tab, line feed and carriage return.\<close>

definition is_ws :: "char \<Rightarrow> bool" where
  "is_ws c = (c = CHR 0x20 \<or> c = CHR 0x09 \<or> c = CHR 0x0A \<or> c = CHR 0x0D)"

definition skip_ws :: "string \<Rightarrow> string" where
  "skip_ws s = dropWhile is_ws s"

definition is_digit :: "char \<Rightarrow> bool" where
  "is_digit c = (48 \<le> (of_char c :: nat) \<and> (of_char c :: nat) \<le> 57)"

definition digit_val :: "char \<Rightarrow> nat" where
  "digit_val c = of_char c - 48"

definition hex_val :: "char \<Rightarrow> nat option" where
  "hex_val c =
     (let n = (of_char c :: nat)
      in if 48 \<le> n \<and> n \<le> 57 then Some (n - 48)
         else if 97 \<le> n \<and> n \<le> 102 then Some (n - 87)
         else if 65 \<le> n \<and> n \<le> 70 then Some (n - 55)
         else None)"

definition hex4 :: "char \<Rightarrow> char \<Rightarrow> char \<Rightarrow> char \<Rightarrow> nat option" where
  "hex4 a b c d =
     (case (hex_val a, hex_val b, hex_val c, hex_val d) of
        (Some w, Some x, Some y, Some z) \<Rightarrow> Some (((w * 16 + x) * 16 + y) * 16 + z)
      | _ \<Rightarrow> None)"

definition unescape :: "char \<Rightarrow> char option" where
  "unescape e =
     (if e = CHR 0x22 then Some (CHR 0x22)
      else if e = CHR 0x5C then Some (CHR 0x5C)
      else if e = CHR ''/'' then Some (CHR ''/'')
      else if e = CHR ''b'' then Some (CHR 0x08)
      else if e = CHR ''f'' then Some (CHR 0x0C)
      else if e = CHR ''n'' then Some (CHR 0x0A)
      else if e = CHR ''r'' then Some (CHR 0x0D)
      else if e = CHR ''t'' then Some (CHR 0x09)
      else None)"

definition cons_result :: "'a \<Rightarrow> parse_error + ('a list \<times> string) \<Rightarrow> parse_error + ('a list \<times> string)" where
  "cons_result x r = (case r of Inl e \<Rightarrow> Inl e | Inr (xs, rest) \<Rightarrow> Inr (x # xs, rest))"

text \<open>
  The characters of a string, after the opening quote, up to the closing quote. A code
  unit below U+0020 must be escaped. The result is the string and the rest of the text.
\<close>

fun parse_chars :: "string \<Rightarrow> parse_error + (string \<times> string)" where
  "parse_chars [] = Inl SyntaxError"
| "parse_chars (c # cs) =
     (if c = CHR 0x22 then Inr ([], cs)
      else if c = CHR 0x5C then
        (case cs of
           [] \<Rightarrow> Inl SyntaxError
         | e # es \<Rightarrow>
             if e = CHR ''u'' then
               (case es of
                  h1 # h2 # h3 # h4 # r \<Rightarrow>
                    (case hex4 h1 h2 h3 h4 of
                       None \<Rightarrow> Inl SyntaxError
                     | Some n \<Rightarrow> if n < 256 then cons_result (char_of n) (parse_chars r)
                                else Inl OutsideModel)
                | _ \<Rightarrow> Inl SyntaxError)
             else
               (case unescape e of
                  None \<Rightarrow> Inl SyntaxError
                | Some d \<Rightarrow> cons_result d (parse_chars es)))
      else if (of_char c :: nat) < 32 then Inl SyntaxError
      else cons_result c (parse_chars cs))"

text \<open>
  A number: an optional minus sign, then \<open>0\<close> or a digit from 1 to 9 followed by digits.
\<close>

fun parse_digits :: "string \<Rightarrow> nat \<Rightarrow> nat \<times> string" where
  "parse_digits [] acc = (acc, [])"
| "parse_digits (c # cs) acc =
     (if is_digit c then parse_digits cs (10 * acc + digit_val c) else (acc, c # cs))"

definition parse_unsigned :: "string \<Rightarrow> parse_error + (nat \<times> string)" where
  "parse_unsigned s =
     (case s of
        [] \<Rightarrow> Inl SyntaxError
      | d # ds \<Rightarrow>
          if \<not> is_digit d then Inl SyntaxError
          else
            (let (n, r) = (if d = CHR ''0'' then (0, ds) else parse_digits (d # ds) 0)
             in case r of
                  [] \<Rightarrow> Inr (n, r)
                | e # _ \<Rightarrow> if e = CHR ''.'' \<or> e = CHR ''e'' \<or> e = CHR ''E''
                           then Inl OutsideModel else Inr (n, r)))"

definition parse_number :: "string \<Rightarrow> parse_error + (int \<times> string)" where
  "parse_number s =
     (case s of
        [] \<Rightarrow> Inl SyntaxError
      | c # cs \<Rightarrow>
          if c = CHR ''-''
          then (case parse_unsigned cs of Inl e \<Rightarrow> Inl e | Inr (n, r) \<Rightarrow> Inr (- int n, r))
          else (case parse_unsigned (c # cs) of Inl e \<Rightarrow> Inl e | Inr (n, r) \<Rightarrow> Inr (int n, r)))"

definition literal :: "string \<Rightarrow> json \<Rightarrow> string \<Rightarrow> parse_error + (json \<times> string)" where
  "literal w v s = (if prefix w s then Inr (v, drop (length w) s) else Inl SyntaxError)"

text \<open>
  A value, the elements of an array after \<open>[\<close> (when the array is not empty), and the
  members of an object after \<open>{\<close> (when the object is not empty). The first argument is
  the fuel.
\<close>

fun parse_value :: "nat \<Rightarrow> string \<Rightarrow> parse_error + (json \<times> string)"
  and parse_elements :: "nat \<Rightarrow> string \<Rightarrow> parse_error + (json list \<times> string)"
  and parse_members :: "nat \<Rightarrow> string \<Rightarrow> parse_error + ((string \<times> json) list \<times> string)" where
  "parse_value 0 s = Inl OutOfFuel"
| "parse_value (Suc n) s =
     (case skip_ws s of
        [] \<Rightarrow> Inl SyntaxError
      | c # cs \<Rightarrow>
          if c = CHR ''{'' then
            (case skip_ws cs of
               [] \<Rightarrow> Inl SyntaxError
             | d # ds \<Rightarrow>
                 if d = CHR ''}'' then Inr (JObject [], ds)
                 else (case parse_members n cs of
                         Inl e \<Rightarrow> Inl e
                       | Inr (kvs, r) \<Rightarrow> Inr (JObject kvs, r)))
          else if c = CHR ''['' then
            (case skip_ws cs of
               [] \<Rightarrow> Inl SyntaxError
             | d # ds \<Rightarrow>
                 if d = CHR '']'' then Inr (JArray [], ds)
                 else (case parse_elements n cs of
                         Inl e \<Rightarrow> Inl e
                       | Inr (vs, r) \<Rightarrow> Inr (JArray vs, r)))
          else if c = CHR 0x22 then
            (case parse_chars cs of
               Inl e \<Rightarrow> Inl e
             | Inr (str, r) \<Rightarrow> Inr (JString str, r))
          else if c = CHR ''-'' \<or> is_digit c then
            (case parse_number (c # cs) of
               Inl e \<Rightarrow> Inl e
             | Inr (i, r) \<Rightarrow> Inr (JNumber i, r))
          else if c = CHR ''t'' then literal ''true'' (JBool True) (c # cs)
          else if c = CHR ''f'' then literal ''false'' (JBool False) (c # cs)
          else if c = CHR ''n'' then literal ''null'' JNull (c # cs)
          else Inl SyntaxError)"
| "parse_elements 0 s = Inl OutOfFuel"
| "parse_elements (Suc n) s =
     (case parse_value n s of
        Inl e \<Rightarrow> Inl e
      | Inr (v, r) \<Rightarrow>
          (case skip_ws r of
             [] \<Rightarrow> Inl SyntaxError
           | c # cs \<Rightarrow>
               if c = CHR '','' then cons_result v (parse_elements n cs)
               else if c = CHR '']'' then Inr ([v], cs)
               else Inl SyntaxError))"
| "parse_members 0 s = Inl OutOfFuel"
| "parse_members (Suc n) s =
     (case skip_ws s of
        [] \<Rightarrow> Inl SyntaxError
      | q # qs \<Rightarrow>
          if q \<noteq> CHR 0x22 then Inl SyntaxError
          else
            (case parse_chars qs of
               Inl e \<Rightarrow> Inl e
             | Inr (k, r) \<Rightarrow>
                 (case skip_ws r of
                    [] \<Rightarrow> Inl SyntaxError
                  | c # cs \<Rightarrow>
                      if c \<noteq> CHR '':'' then Inl SyntaxError
                      else
                        (case parse_value n cs of
                           Inl e \<Rightarrow> Inl e
                         | Inr (v, r') \<Rightarrow>
                             (case skip_ws r' of
                                [] \<Rightarrow> Inl SyntaxError
                              | d # ds \<Rightarrow>
                                  if d = CHR '','' then cons_result (k, v) (parse_members n ds)
                                  else if d = CHR ''}'' then Inr ([(k, v)], ds)
                                  else Inl SyntaxError)))))"

text \<open>
  \<open>JSON.parse(text)\<close>: one value, with white space around it and nothing else. Each
  recursive call takes one unit of fuel and at most two calls go by without a character
  being read, so twice the length of the text is enough.
\<close>

definition JSON_parse :: "string \<Rightarrow> parse_error + json" where
  "JSON_parse s =
     (case parse_value (2 * length s + 2) s of
        Inl e \<Rightarrow> Inl e
      | Inr (v, r) \<Rightarrow> if skip_ws r = [] then Inr v else Inl SyntaxError)"

section \<open>The library page (src/unnamed/part_000)\<close>

subsection \<open>Data\<close>

text \<open>
  \<open>status: "read" | "reading" | "to-read"\<close> is a datatype; \<open>status_str\<close> gives the
  string that the source compares and stores.
\<close>

datatype status = Read | Reading | ToRead

fun status_str :: "status \<Rightarrow> string" where
  "status_str Read = ''read''"
| "status_str Reading = ''reading''"
| "status_str ToRead = ''to-read''"

text \<open>
  The form state holds the seven fields a user edits. A \<open>Book\<close> is these fields together
  with \<open>id\<close> and \<open>dateAdded\<close>, so the record of a book extends the record of the form:
  the spread \<open>{ id, ...formData, dateAdded }\<close> is the extension of the form's record, and
  \<open>{ ...book, ...formData }\<close> overwrites the seven fields of the book. The field \<open>id\<close> is
  named \<open>id'\<close>. \<open>rating?: number\<close> is an option: \<open>undefined\<close> is \<open>None\<close>. \<open>year\<close> is an
  integer: the form sets it with \<open>Number.parseInt(...) || new Date().getFullYear()\<close>.
  The texts that the user types have code units of the type \<open>'c\<close>; \<open>id\<close> and
  \<open>dateAdded\<close>, which the page makes from the clock, are texts of 8-bit code units.
\<close>

record 'c form_data =
  title :: "'c list"
  author :: "'c list"
  genre :: "'c list"
  year :: int
  description :: "'c list"
  status :: status
  rating :: "int option"

record 'c Book = "'c form_data" +
  id' :: string
  dateAdded :: string

text \<open>The state of the component \<open>BookLibrary\<close>: one field for each \<open>useState\<close>.\<close>

record 'c state =
  books :: "'c Book list"
  searchTerm :: "'c list"
  filterGenre :: "'c list"
  filterStatus :: "'c list"
  isAddDialogOpen :: bool
  isEditDialogOpen :: bool
  editingBook :: "'c Book option"
  formData :: "'c form_data"

text \<open>
  What the handlers read from the clock: \<open>Date.now()\<close> (milliseconds since the epoch),
  \<open>new Date().toISOString().split("T")[0]\<close> (the date, as text) and
  \<open>new Date().getFullYear()\<close>. The calendar arithmetic that relates the three is not
  modelled: a handler receives the three readings.
\<close>

record clock =
  now :: int
  isoDate :: string
  fullYear :: int

subsection \<open>The collection as a JavaScript value\<close>

text \<open>
  The object of a book, as \<open>JSON.stringify\<close> sees it: a property whose value is
  \<open>undefined\<close> is left out, so \<open>rating\<close> is a member only when the book has one. The
  members stand in the order in which \<open>handleAddBook\<close> and the sample data build the
  object: \<open>id\<close>, the fields of the form, \<open>dateAdded\<close>. (An object that was read back
  without \<open>rating\<close> and got one from an edit has it last; reading looks a member up by
  its name, so the order has no effect on what is read: lemma \<open>book_of_json_any_order\<close>.)
\<close>

definition json_of_book :: "char Book \<Rightarrow> json" where
  "json_of_book b =
     JObject
       ([(''id'', JString (id' b)), (''title'', JString (title b)),
         (''author'', JString (author b)), (''genre'', JString (genre b)),
         (''year'', JNumber (year b)), (''description'', JString (description b)),
         (''status'', JString (status_str (status b)))]
        @ (case rating b of None \<Rightarrow> [] | Some r \<Rightarrow> [(''rating'', JNumber r)])
        @ [(''dateAdded'', JString (dateAdded b))])"

definition json_of_books :: "char Book list \<Rightarrow> json" where
  "json_of_books bs = JArray (map json_of_book bs)"

text \<open>
  \<open>setBooks(JSON.parse(savedBooks))\<close> stores whatever value the text denotes: the type
  \<open>Book[]\<close> is not checked when the page runs. \<open>books_of_json v = Some bs\<close> says that the
  value \<open>v\<close> is the list of books \<open>bs\<close>: an array of objects whose properties have the
  types of the interface \<open>Book\<close>. Reading a property gives the last member of that name.
\<close>

definition property :: "(string \<times> json) list \<Rightarrow> string \<Rightarrow> json option" where
  "property kvs k = map_of (rev kvs) k"

fun as_string :: "json option \<Rightarrow> string option" where
  "as_string (Some (JString s)) = Some s"
| "as_string _ = None"

fun as_number :: "json option \<Rightarrow> int option" where
  "as_number (Some (JNumber i)) = Some i"
| "as_number _ = None"

fun as_optional_number :: "json option \<Rightarrow> int option option" where
  "as_optional_number None = Some None"
| "as_optional_number (Some (JNumber i)) = Some (Some i)"
| "as_optional_number (Some _) = None"

definition status_of_str :: "string \<Rightarrow> status option" where
  "status_of_str s =
     (if s = ''read'' then Some Read
      else if s = ''reading'' then Some Reading
      else if s = ''to-read'' then Some ToRead
      else None)"

fun book_of_json :: "json \<Rightarrow> char Book option" where
  "book_of_json (JObject kvs) =
     do {
       i \<leftarrow> as_string (property kvs ''id'');
       t \<leftarrow> as_string (property kvs ''title'');
       a \<leftarrow> as_string (property kvs ''author'');
       g \<leftarrow> as_string (property kvs ''genre'');
       y \<leftarrow> as_number (property kvs ''year'');
       d \<leftarrow> as_string (property kvs ''description'');
       s \<leftarrow> as_string (property kvs ''status'');
       st \<leftarrow> status_of_str s;
       r \<leftarrow> as_optional_number (property kvs ''rating'');
       da \<leftarrow> as_string (property kvs ''dateAdded'');
       Some \<lparr>title = t, author = a, genre = g, year = y, description = d, status = st,
             rating = r, id' = i, dateAdded = da\<rparr>
     }"
| "book_of_json _ = None"

fun books_of_json :: "json \<Rightarrow> char Book list option" where
  "books_of_json (JArray vs) = those (map book_of_json vs)"
| "books_of_json _ = None"

subsection \<open>Loading and saving\<close>

text \<open>The sample data of the load effect.\<close>

definition sampleBooks :: "char Book list" where
  "sampleBooks =
     [\<lparr>title = ''The Great Gatsby'', author = ''F. Scott Fitzgerald'', genre = ''Fiction'',
       year = 1925, description = ''A classic American novel set in the Jazz Age.'',
       status = Read, rating = Some 5, id' = ''1'', dateAdded = ''2024-01-15''\<rparr>,
      \<lparr>title = ''Dune'', author = ''Frank Herbert'', genre = ''Science Fiction'',
       year = 1965,
       description = ''Epic science fiction novel about desert planet Arrakis.'',
       status = Reading, rating = None, id' = ''2'', dateAdded = ''2024-02-01''\<rparr>]"

text \<open>
  The effect that loads the books when the component mounts. Its argument is what
  \<open>localStorage.getItem("books")\<close> returns: \<open>None\<close> is \<open>null\<close>. Its result is what
  the effect does to the state, and the slot as this effect leaves it: either
  \<open>JSON.parse\<close> throws, and nothing in the effect catches the exception, or \<open>setBooks\<close>
  is called with a value. The empty string is falsy, so it is treated as an absent slot.
\<close>

datatype load_result = Threw parse_error | SetBooks json

definition loadEffect :: "string option \<Rightarrow> load_result \<times> string option" where
  "loadEffect savedBooks =
     (case savedBooks of
        None \<Rightarrow>
          (SetBooks (json_of_books sampleBooks),
           Some (JSON_stringify (json_of_books sampleBooks)))
      | Some s \<Rightarrow>
          if s = [] then
            (SetBooks (json_of_books sampleBooks),
             Some (JSON_stringify (json_of_books sampleBooks)))
          else
            (case JSON_parse s of
               Inl e \<Rightarrow> (Threw e, Some s)
             | Inr v \<Rightarrow> (SetBooks v, Some s)))"

text \<open>
  The effect that saves the books, which runs after every change of \<open>books\<close>: the
  slot as the effect leaves it.
\<close>

definition saveEffect :: "char Book list \<Rightarrow> string option" where
  "saveEffect bs = Some (JSON_stringify (json_of_books bs))"

subsection \<open>Handlers\<close>

definition resetForm :: "clock \<Rightarrow> 'c form_data" where
  "resetForm clk =
     \<lparr>title = [], author = [], genre = [], year = fullYear clk, description = [],
      status = ToRead, rating = None\<rparr>"

definition newBook :: "clock \<Rightarrow> 'c form_data \<Rightarrow> 'c Book" where
  "newBook clk fd =
     form_data.extend fd (Book.fields (toString (now clk)) (isoDate clk))"

definition handleAddBook :: "clock \<Rightarrow> 'c state \<Rightarrow> 'c state" where
  "handleAddBook clk st =
     (if title (formData st) = [] \<or> author (formData st) = [] \<or> genre (formData st) = []
      then st
      else st\<lparr>books := books st @ [newBook clk (formData st)],
              isAddDialogOpen := False,
              formData := resetForm clk\<rparr>)"

text \<open>\<open>{ ...book, ...formData }\<close>: the seven form fields replace the book's.\<close>

definition spread :: "'c Book \<Rightarrow> 'c form_data \<Rightarrow> 'c Book" where
  "spread book fd =
     book\<lparr>title := title fd, author := author fd, genre := genre fd, year := year fd,
          description := description fd, status := status fd, rating := rating fd\<rparr>"

definition handleEditBook :: "clock \<Rightarrow> 'c state \<Rightarrow> 'c state" where
  "handleEditBook clk st =
     (case editingBook st of
        None \<Rightarrow> st
      | Some eb \<Rightarrow>
          if title (formData st) = [] \<or> author (formData st) = [] \<or> genre (formData st) = []
          then st
          else st\<lparr>books := map (\<lambda>book. if id' book = id' eb then spread book (formData st) else book)
                               (books st),
                  isEditDialogOpen := False,
                  editingBook := None,
                  formData := resetForm clk\<rparr>)"

definition handleDeleteBook :: "string \<Rightarrow> 'c state \<Rightarrow> 'c state" where
  "handleDeleteBook i st = st\<lparr>books := filter (\<lambda>book. id' book \<noteq> i) (books st)\<rparr>"

definition openEditDialog :: "'c Book \<Rightarrow> 'c state \<Rightarrow> 'c state" where
  "openEditDialog book st =
     st\<lparr>editingBook := Some book,
        formData := \<lparr>title = title book, author = author book, genre = genre book,
                     year = year book, description = description book, status = status book,
                     rating = rating book\<rparr>,
        isEditDialogOpen := True\<rparr>"

subsection \<open>Derived views\<close>






text \<open>The four statistics cards, in the order of the page.\<close>

record summary =
  total' :: nat
  readCount :: nat
  readingCount :: nat
  toReadCount :: nat

definition summarize :: "'c Book list \<Rightarrow> summary" where
  "summarize bs =
     \<lparr>total' = length bs,
      readCount = length (filter (\<lambda>b. status_str (status b) = ''read'') bs),
      readingCount = length (filter (\<lambda>b. status_str (status b) = ''reading'') bs),
      toReadCount = length (filter (\<lambda>b. status_str (status b) = ''to-read'') bs)\<rparr>"

section \<open>The table page (src/app/page.tsx)\<close>

text \<open>
  The book of this page is the output type of \<open>bookSchema\<close>: a title, an author and an
  optional rating, and no identifier. Its fields carry the suffix \<open>_p\<close>, the names
  \<open>title\<close>, \<open>author\<close> and \<open>rating\<close> being those of the library page. The state is the
  list \<open>books\<close> and the slot \<open>"books"\<close> of \<open>localStorage\<close>, which both handlers write.
\<close>

record page_book =
  title_p :: string
  author_p :: string
  rating_p :: "int option"

record page_state =
  books_p :: "page_book list"
  slot_p :: "string option"

definition json_of_page_book :: "page_book \<Rightarrow> json" where
  "json_of_page_book b =
     JObject
       ([(''title'', JString (title_p b)), (''author'', JString (author_p b))]
        @ (case rating_p b of None \<Rightarrow> [] | Some r \<Rightarrow> [(''rating'', JNumber r)]))"

definition json_of_page_books :: "page_book list \<Rightarrow> json" where
  "json_of_page_books bs = JArray (map json_of_page_book bs)"

text \<open>\<open>deleteBook\<close> of the component \<open>Actions\<close>, for the book of the row.\<close>

definition deleteBook :: "page_book \<Rightarrow> page_state \<Rightarrow> page_state" where
  "deleteBook book st =
     (let updatedBooks =
            filter (\<lambda>b. title_p b \<noteq> title_p book \<and> author_p b \<noteq> author_p book) (books_p st)
      in st\<lparr>books_p := updatedBooks,
             slot_p := Some (JSON_stringify (json_of_page_books updatedBooks))\<rparr>)"

text \<open>
  \<open>onSubmit\<close> of the component \<open>EditBookForm\<close>, for the book of the row and the values
  of the form.
\<close>

definition onSubmit :: "page_book \<Rightarrow> page_book \<Rightarrow> page_state \<Rightarrow> page_state" where
  "onSubmit book values st =
     (let updatedBooks =
            map (\<lambda>b. if title_p b = title_p book \<and> author_p b = author_p book then values else b)
                (books_p st)
      in st\<lparr>books_p := updatedBooks,
             slot_p := Some (JSON_stringify (json_of_page_books updatedBooks))\<rparr>)"

section \<open>Notions of the specification\<close>







text \<open>
  A sequence of add operations: for each one, the user fills the form and
  \<open>handleAddBook\<close> runs at some reading of the clock.
\<close>

fun add_all :: "(clock \<times> 'c form_data) list \<Rightarrow> 'c state \<Rightarrow> 'c state" where
  "add_all [] st = st"
| "add_all ((clk, fd) # rest) st = add_all rest (handleAddBook clk (st\<lparr>formData := fd\<rparr>))"

definition accepted :: "'c form_data \<Rightarrow> bool" where
  "accepted fd = (title fd \<noteq> [] \<and> author fd \<noteq> [] \<and> genre fd \<noteq> [])"

text \<open>The state of the page before any event, from the \<open>useState\<close> calls.\<close>

definition initialState :: "clock \<Rightarrow> char state" where
  "initialState clk =
     \<lparr>books = [], searchTerm = '''', filterGenre = ''Fiction'', filterStatus = ''to-read'',
      isAddDialogOpen = False, isEditDialogOpen = False, editingBook = None,
      formData = resetForm clk\<rparr>"

subsection \<open>Vocabulary of the proofs about the parser\<close>

text \<open>
  What may follow a number without being read as a part of it; the first character of a
  written value; what follows a value inside an array or an object; and a parser outcome
  that is not \<open>OutOfFuel\<close> and, when it is a value, leaves a shorter text.
\<close>

definition number_follow :: "string \<Rightarrow> bool" where
  "number_follow rest =
     (rest = [] \<or> (\<not> is_digit (hd rest) \<and> hd rest \<noteq> CHR ''.'' \<and> hd rest \<noteq> CHR ''e'' \<and>
                   hd rest \<noteq> CHR ''E''))"

definition value_start :: "char \<Rightarrow> bool" where
  "value_start c =
     (c = CHR ''{'' \<or> c = CHR ''['' \<or> c = CHR 0x22 \<or> c = CHR ''-'' \<or> is_digit c \<or>
      c = CHR ''t'' \<or> c = CHR ''f'' \<or> c = CHR ''n'')"

definition value_follow :: "string \<Rightarrow> bool" where
  "value_follow rest =
     (rest = [] \<or> hd rest = CHR '','' \<or> hd rest = CHR '']'' \<or> hd rest = CHR ''}'')"

definition consumes :: "parse_error + ('a \<times> string) \<Rightarrow> string \<Rightarrow> bool" where
  "consumes res s = (case res of Inl e \<Rightarrow> e \<noteq> OutOfFuel | Inr (x, r) \<Rightarrow> length r < length s)"

subsection \<open>Vocabulary of the proofs about the search\<close>


subsection \<open>Example data\<close>

definition clock0 :: clock where
  "clock0 = \<lparr>now = 1700000000000, isoDate = ''2023-11-14'', fullYear = 2023\<rparr>"

definition draft0 :: "char form_data" where
  "draft0 =
     \<lparr>title = ''Emma'', author = ''Jane Austen'', genre = ''Fiction'', year = 1815,
      description = '''', status = ToRead, rating = None\<rparr>"

definition gatsby :: "char Book" where
  "gatsby = sampleBooks ! 0"

definition dune :: "char Book" where
  "dune = sampleBooks ! 1"

definition editState :: "char state" where
  "editState =
     (openEditDialog dune ((initialState clock0)\<lparr>books := sampleBooks\<rparr>))
       \<lparr>formData := \<lparr>title = ''Dune Messiah'', author = ''Frank Herbert'',
                      genre = ''Science Fiction'', year = 1969, description = '''',
                      status = Read, rating = Some 4\<rparr>\<rparr>"

text \<open>
  Two adds at one reading of the clock, then the edit dialog on the first of the two
  records, with a new title in the form.
\<close>

definition twinState :: "char state" where
  "twinState =
     (let st = add_all [(clock0, draft0), (clock0, draft0\<lparr>title := ''Persuasion''\<rparr>)]
                 (initialState clock0)
      in (openEditDialog (books st ! 0) st)
           \<lparr>formData := draft0\<lparr>title := ''Emma, annotated''\<rparr>\<rparr>)"




definition tableState :: page_state where
  "tableState =
     \<lparr>books_p =
        [\<lparr>title_p = ''Emma'', author_p = ''Jane Austen'', rating_p = Some 4\<rparr>,
         \<lparr>title_p = ''Emma'', author_p = ''Another Author'', rating_p = None\<rparr>,
         \<lparr>title_p = ''Persuasion'', author_p = ''Jane Austen'', rating_p = None\<rparr>,
         \<lparr>title_p = ''Dune'', author_p = ''Frank Herbert'', rating_p = Some 5\<rparr>,
         \<lparr>title_p = ''Emma'', author_p = ''Jane Austen'', rating_p = None\<rparr>],
      slot_p = None\<rparr>"

section \<open>Lemmas about numbers and JSON texts\<close>

lemma hex_val_hex_char: "d < 16 \<Longrightarrow> hex_val (hex_char d) = Some d"
proof -
  have "list_all (\<lambda>d. hex_val (hex_char d) = Some d) [0..<16]"
    by code_simp
  moreover assume "d < 16"
  ultimately show ?thesis
    by (simp add: list_all_iff)
qed

lemma digit_char_props: "is_digit (digit_char d) \<and> digit_val (digit_char d) = d mod 10"
proof -
  have "list_all (\<lambda>d. is_digit (digit_char d) \<and> digit_val (digit_char d) = d) [0..<10]"
    by code_simp
  moreover have "d mod 10 < 10" by simp
  ultimately have "is_digit (digit_char (d mod 10)) \<and> digit_val (digit_char (d mod 10)) = d mod 10"
    unfolding list_all_iff by (metis atLeastLessThan_iff set_upt zero_le)
  then show ?thesis by (simp add: digit_char_def)
qed

lemma digit_char_zero: "digit_char d = CHR ''0'' \<longleftrightarrow> d mod 10 = 0"
proof -
  have "list_all (\<lambda>d. digit_char d = CHR ''0'' \<longleftrightarrow> d = 0) [0..<10]"
    by code_simp
  moreover have "d mod 10 < 10" by simp
  ultimately have "digit_char (d mod 10) = CHR ''0'' \<longleftrightarrow> d mod 10 = 0"
    unfolding list_all_iff by (metis atLeastLessThan_iff set_upt zero_le)
  then show ?thesis by (simp add: digit_char_def)
qed

text \<open>Reading the digits of \<open>n\<close> after an accumulator \<open>acc\<close> gives \<open>acc\<close> shifted, plus \<open>n\<close>.\<close>

lemma parse_digits_digits:
  "parse_digits (digits n @ rest) acc = parse_digits rest (acc * 10 ^ length (digits n) + n)"
proof (induction n arbitrary: rest acc rule: digits.induct)
  case (1 n)
  show ?case
  proof (cases "n < 10")
    case True
    then show ?thesis
      using digit_char_props [of n] by (simp add: digits.simps [of n] mult.commute)
  next
    case False
    have "parse_digits (digits n @ rest) acc =
          parse_digits (digits (n div 10) @ (digit_char (n mod 10) # rest)) acc"
      using False by (simp add: digits.simps [of n])
    also have "\<dots> = parse_digits (digit_char (n mod 10) # rest)
                        (acc * 10 ^ length (digits (n div 10)) + n div 10)"
      using "1.IH" [OF False] by simp
    also have "\<dots> = parse_digits rest
                        (10 * (acc * 10 ^ length (digits (n div 10)) + n div 10) + n mod 10)"
      using digit_char_props [of "n mod 10"] by simp
    also have "10 * (acc * 10 ^ length (digits (n div 10)) + n div 10) + n mod 10 =
               acc * 10 ^ length (digits n) + n"
      using False by (simp add: digits.simps [of n] algebra_simps)
    finally show ?thesis .
  qed
qed

lemma digits_nonempty: "digits n \<noteq> []"
  by (subst digits.simps) simp

lemma hd_digits_is_digit: "is_digit (hd (digits n))"
proof (induction n rule: digits.induct)
  case (1 n)
  show ?case
  proof (cases "n < 10")
    case True
    then show ?thesis using digit_char_props [of n] by (simp add: digits.simps [of n])
  next
    case False
    then show ?thesis
      using "1.IH" digits_nonempty [of "n div 10"] by (simp add: digits.simps [of n])
  qed
qed

lemma hd_digits_zero: "hd (digits n) = CHR ''0'' \<longleftrightarrow> n = 0"
proof (induction n rule: digits.induct)
  case (1 n)
  show ?case
  proof (cases "n < 10")
    case True
    then show ?thesis using digit_char_zero [of n] by (simp add: digits.simps [of n])
  next
    case False
    then have "hd (digits n) = hd (digits (n div 10))"
      using digits_nonempty [of "n div 10"] by (simp add: digits.simps [of n])
    with "1.IH" False show ?thesis by simp
  qed
qed

lemma parse_digits_stop: "number_follow rest \<Longrightarrow> parse_digits rest a = (a, rest)"
  by (cases rest) (auto simp: number_follow_def)

lemma parse_unsigned_digits:
  assumes "number_follow rest"
  shows "parse_unsigned (digits n @ rest) = Inr (n, rest)"
proof -
  obtain d ds where dd: "digits n = d # ds"
    using digits_nonempty [of n] by (cases "digits n") auto
  have dig: "is_digit d" using hd_digits_is_digit [of n] dd by simp
  have zero: "d = CHR ''0'' \<longleftrightarrow> n = 0" using hd_digits_zero [of n] dd by simp
  have follow: "(case rest of [] \<Rightarrow> Inr (m, rest)
                 | e # _ \<Rightarrow> if e = CHR ''.'' \<or> e = CHR ''e'' \<or> e = CHR ''E''
                            then Inl OutsideModel else Inr (m, rest)) = Inr (m, rest)" for m :: nat
    using assms by (cases rest) (auto simp: number_follow_def)
  show ?thesis
  proof (cases "n = 0")
    case True
    then have "digits n = ''0''" by (simp add: digits.simps [of 0] digit_char_def)
    then show ?thesis using follow [of 0] True
      by (simp add: parse_unsigned_def is_digit_def)
  next
    case False
    have "parse_digits (digits n @ rest) 0 = (n, rest)"
      using parse_digits_digits [of n rest 0] parse_digits_stop [OF assms] by simp
    then have "parse_digits (d # ds @ rest) 0 = (n, rest)"
      using dd by simp
    then show ?thesis using follow [of n] False zero dig dd
      by (simp add: parse_unsigned_def)
  qed
qed

lemma hd_digits_not_minus: "hd (digits n) \<noteq> CHR ''-''"
  using hd_digits_is_digit [of n] by (auto simp: is_digit_def)

lemma parse_number_toString:
  assumes "number_follow rest"
  shows "parse_number (toString i @ rest) = Inr (i, rest)"
proof (cases "i < 0")
  case True
  then show ?thesis
    using parse_unsigned_digits [OF assms, of "nat (- i)"]
    by (simp add: parse_number_def toString_def)
next
  case False
  obtain d ds where dd: "digits (nat i) = d # ds"
    using digits_nonempty [of "nat i"] by (cases "digits (nat i)") auto
  have "d \<noteq> CHR ''-''" using hd_digits_not_minus [of "nat i"] dd by simp
  then show ?thesis
    using False parse_unsigned_digits [OF assms, of "nat i"] dd
    by (simp add: parse_number_def toString_def)
qed

lemma toString_inj: "toString i = toString j \<Longrightarrow> i = j"
proof -
  assume eq: "toString i = toString j"
  have "number_follow []" by (simp add: number_follow_def)
  then have "parse_number (toString i @ []) = Inr (i, [])"
    and "parse_number (toString j @ []) = Inr (j, [])"
    by (rule parse_number_toString)+
  with eq show "i = j" by simp
qed

lemma hex4_control:
  assumes "n < 32"
  shows "hex4 (CHR ''0'') (CHR ''0'') (hex_char (n div 16)) (hex_char (n mod 16)) = Some n"
proof -
  have z: "hex_val (CHR ''0'') = Some 0" by (simp add: hex_val_def)
  have hi: "hex_val (hex_char (n div 16)) = Some (n div 16)"
    using assms by (intro hex_val_hex_char) simp
  have lo: "hex_val (hex_char (n mod 16)) = Some (n mod 16)"
    by (intro hex_val_hex_char) simp
  show ?thesis by (simp add: hex4_def z hi lo)
qed

lemma parse_chars_quote_char:
  "parse_chars (quote_char c @ tail) = cons_result c (parse_chars tail)"
proof -
  consider (bs) "c = CHR 0x08" | (tab) "c = CHR 0x09" | (lf) "c = CHR 0x0A" | (ff) "c = CHR 0x0C"
    | (cr) "c = CHR 0x0D" | (dq) "c = CHR 0x22" | (bsl) "c = CHR 0x5C"
    | (ctl) "c \<notin> {CHR 0x08, CHR 0x09, CHR 0x0A, CHR 0x0C, CHR 0x0D, CHR 0x22, CHR 0x5C}"
        "(of_char c :: nat) < 32"
    | (plain) "c \<notin> {CHR 0x08, CHR 0x09, CHR 0x0A, CHR 0x0C, CHR 0x0D, CHR 0x22, CHR 0x5C}"
        "\<not> (of_char c :: nat) < 32"
    by blast
  then show ?thesis
  proof cases
    case ctl
    have q: "quote_char c = [CHR 0x5C, CHR ''u'', CHR ''0'', CHR ''0'',
              hex_char (of_char c div 16), hex_char (of_char c mod 16)]"
      using ctl by (simp add: quote_char_def)
    show ?thesis
      using ctl(2) by (simp add: q hex4_control)
  next
    case plain
    then show ?thesis by (simp add: quote_char_def)
  qed (simp_all add: quote_char_def unescape_def)
qed

lemma parse_chars_quoted:
  "parse_chars (concat (map quote_char s) @ CHR 0x22 # rest) = Inr (s, rest)"
proof (induction s)
  case Nil
  show ?case by simp
next
  case (Cons c s)
  have "parse_chars (concat (map quote_char (c # s)) @ CHR 0x22 # rest) =
        parse_chars (quote_char c @ (concat (map quote_char s) @ CHR 0x22 # rest))"
    by simp
  also have "\<dots> = cons_result c (parse_chars (concat (map quote_char s) @ CHR 0x22 # rest))"
    by (rule parse_chars_quote_char)
  also have "\<dots> = Inr (c # s, rest)"
    by (simp add: Cons.IH cons_result_def)
  finally show ?case .
qed

lemma parse_chars_quote: "parse_chars (tl (quote s) @ rest) = Inr (s, rest)"
  using parse_chars_quoted [of s rest] by (simp add: quote_def)

lemma value_follow_number: "value_follow rest \<Longrightarrow> number_follow rest"
  by (auto simp: value_follow_def number_follow_def is_digit_def)

lemma value_follow_simps [simp]:
  "value_follow []" "value_follow (CHR '','' # s)" "value_follow (CHR '']'' # s)"
  "value_follow (CHR ''}'' # s)"
  by (simp_all add: value_follow_def)

lemma value_start_props:
  "value_start c \<Longrightarrow> \<not> is_ws c \<and> c \<noteq> CHR '']'' \<and> c \<noteq> CHR ''}''"
  by (auto simp: value_start_def is_ws_def is_digit_def)

lemma skip_ws_start: "\<not> is_ws c \<Longrightarrow> skip_ws (c # cs) = c # cs"
  by (simp add: skip_ws_def)

lemma toString_head: "\<exists>c cs. toString i = c # cs \<and> (c = CHR ''-'' \<or> is_digit c)"
proof (cases "i < 0")
  case True
  then show ?thesis by (simp add: toString_def)
next
  case False
  obtain d ds where "digits (nat i) = d # ds"
    using digits_nonempty [of "nat i"] by (cases "digits (nat i)") auto
  then show ?thesis
    using False hd_digits_is_digit [of "nat i"] by (simp add: toString_def)
qed

lemma stringify_head: "\<exists>c cs. JSON_stringify v = c # cs \<and> value_start c"
proof (cases v)
  case (JNumber i)
  then show ?thesis using toString_head [of i] by (auto simp: value_start_def)
qed (auto simp: value_start_def quote_def)

lemma stringify_elements_head:
  assumes "vs \<noteq> []"
  shows "\<exists>c cs. stringify_elements vs = c # cs \<and> value_start c"
proof -
  obtain v ws where vs: "vs = v # ws" using assms by (cases vs) auto
  obtain c cs where h: "JSON_stringify v = c # cs" "value_start c"
    using stringify_head [of v] by auto
  show ?thesis using vs h by (cases ws) auto
qed

lemma stringify_members_head:
  assumes "kvs \<noteq> []"
  shows "\<exists>cs. stringify_members kvs = CHR 0x22 # cs"
proof -
  obtain k v ms where kvs: "kvs = (k, v) # ms" using assms by (cases kvs) auto
  show ?thesis using kvs by (cases ms) (auto simp: quote_def)
qed

lemma parse_value_array:
  "parse_value (Suc n) (CHR ''['' # cs) =
     (case skip_ws cs of
        [] \<Rightarrow> Inl SyntaxError
      | d # ds \<Rightarrow>
          if d = CHR '']'' then Inr (JArray [], ds)
          else (case parse_elements n cs of
                  Inl e \<Rightarrow> Inl e
                | Inr (vs, r) \<Rightarrow> Inr (JArray vs, r)))"
  by (simp add: skip_ws_def is_ws_def)

lemma parse_value_object:
  "parse_value (Suc n) (CHR ''{'' # cs) =
     (case skip_ws cs of
        [] \<Rightarrow> Inl SyntaxError
      | d # ds \<Rightarrow>
          if d = CHR ''}'' then Inr (JObject [], ds)
          else (case parse_members n cs of
                  Inl e \<Rightarrow> Inl e
                | Inr (kvs, r) \<Rightarrow> Inr (JObject kvs, r)))"
  by (simp add: skip_ws_def is_ws_def)

lemma parse_value_string:
  "parse_value (Suc n) (CHR 0x22 # cs) =
     (case parse_chars cs of Inl e \<Rightarrow> Inl e | Inr (str, r) \<Rightarrow> Inr (JString str, r))"
  by (simp add: skip_ws_def is_ws_def)

lemma parse_value_number:
  assumes "c = CHR ''-'' \<or> is_digit c"
  shows "parse_value (Suc n) (c # cs) =
     (case parse_number (c # cs) of Inl e \<Rightarrow> Inl e | Inr (i, r) \<Rightarrow> Inr (JNumber i, r))"
proof -
  have "\<not> is_ws c" "c \<noteq> CHR ''{''" "c \<noteq> CHR ''[''" "c \<noteq> CHR 0x22"
    using assms by (auto simp: is_ws_def is_digit_def)
  then show ?thesis using assms by (simp add: skip_ws_def)
qed

lemma parse_value_literals:
  "parse_value (Suc n) (''null'' @ rest) = Inr (JNull, rest)"
  "parse_value (Suc n) (''true'' @ rest) = Inr (JBool True, rest)"
  "parse_value (Suc n) (''false'' @ rest) = Inr (JBool False, rest)"
  by (simp_all add: skip_ws_def is_ws_def is_digit_def literal_def)

lemma parse_elements_step:
  assumes "parse_value n s = Inr (v, c # cs)" "\<not> is_ws c"
  shows "parse_elements (Suc n) s =
           (if c = CHR '','' then cons_result v (parse_elements n cs)
            else if c = CHR '']'' then Inr ([v], cs) else Inl SyntaxError)"
  using assms by (simp add: skip_ws_def)

lemma parse_members_step:
  assumes "parse_chars qs = Inr (k, CHR '':'' # cs)"
    and "parse_value n cs = Inr (v, d # ds)" "\<not> is_ws d"
  shows "parse_members (Suc n) (CHR 0x22 # qs) =
           (if d = CHR '','' then cons_result (k, v) (parse_members n ds)
            else if d = CHR ''}'' then Inr ([(k, v)], ds) else Inl SyntaxError)"
  using assms by (simp add: skip_ws_def is_ws_def)

declare parse_value.simps [simp del]

lemma not_ws_punct [simp]: "\<not> is_ws (CHR '','')" "\<not> is_ws (CHR '']'')" "\<not> is_ws (CHR ''}'')"
  by (simp_all add: is_ws_def)

lemma round_trip_fuel:
  "value_follow rest \<Longrightarrow> 2 * length (JSON_stringify v @ rest) < n \<Longrightarrow>
     parse_value n (JSON_stringify v @ rest) = Inr (v, rest)"
  "vs \<noteq> [] \<Longrightarrow> 2 * length (stringify_elements vs @ CHR '']'' # rest) + 1 < n \<Longrightarrow>
     parse_elements n (stringify_elements vs @ CHR '']'' # rest) = Inr (vs, rest)"
  "kvs \<noteq> [] \<Longrightarrow> 2 * length (stringify_members kvs @ CHR ''}'' # rest) + 1 < n \<Longrightarrow>
     parse_members n (stringify_members kvs @ CHR ''}'' # rest) = Inr (kvs, rest)"
proof (induction v and vs and kvs arbitrary: n rest and n rest and n rest
    rule: JSON_stringify_stringify_elements_stringify_members.induct)
  case 1
  then obtain m where "n = Suc m" by (cases n) auto
  then show ?case using parse_value_literals(1) [of m rest] by simp
next
  case (2 b)
  then obtain m where "n = Suc m" by (cases n) auto
  then show ?case
    using parse_value_literals(2) [of m rest] parse_value_literals(3) [of m rest] by simp
next
  case (3 i)
  then obtain m where n: "n = Suc m" by (cases n) auto
  obtain c cs where h: "toString i = c # cs" "c = CHR ''-'' \<or> is_digit c"
    using toString_head [of i] by auto
  have "parse_number (toString i @ rest) = Inr (i, rest)"
    using "3.prems"(1) by (intro parse_number_toString value_follow_number)
  then show ?case
    using parse_value_number [OF h(2), of m "cs @ rest"] h(1) n by simp
next
  case (4 s)
  then obtain m where n: "n = Suc m" by (cases n) auto
  show ?case
    using parse_chars_quoted [of s rest] by (simp add: n quote_def parse_value_string)
next
  case (5 vs)
  then obtain m where n: "n = Suc m" by (cases n) auto
  show ?case
  proof (cases "vs = []")
    case True
    then show ?thesis by (simp add: n parse_value_array skip_ws_start)
  next
    case False
    obtain c cs where h: "stringify_elements vs = c # cs" "value_start c"
      using stringify_elements_head [OF False] by auto
    have fuel: "2 * length (stringify_elements vs @ CHR '']'' # rest) + 1 < m"
      using "5.prems"(2) n by simp
    have "parse_elements m (stringify_elements vs @ CHR '']'' # rest) = Inr (vs, rest)"
      using "5.IH"(1) [OF False fuel] .
    then show ?thesis
      using h value_start_props [OF h(2)]
      by (simp add: n parse_value_array skip_ws_start)
  qed
next
  case (6 kvs)
  then obtain m where n: "n = Suc m" by (cases n) auto
  show ?case
  proof (cases "kvs = []")
    case True
    then show ?thesis by (simp add: n parse_value_object skip_ws_start)
  next
    case False
    obtain cs where h: "stringify_members kvs = CHR 0x22 # cs"
      using stringify_members_head [OF False] by auto
    have fuel: "2 * length (stringify_members kvs @ CHR ''}'' # rest) + 1 < m"
      using "6.prems"(2) n by simp
    have "parse_members m (stringify_members kvs @ CHR ''}'' # rest) = Inr (kvs, rest)"
      using "6.IH"(1) [OF False fuel] .
    then show ?thesis
      using h by (simp add: n parse_value_object skip_ws_def is_ws_def)
  qed
next
  case 7
  then show ?case by simp
next
  case (8 v)
  then obtain m where n: "n = Suc m" by (cases n) auto
  have "parse_value m (JSON_stringify v @ CHR '']'' # rest) = Inr (v, CHR '']'' # rest)"
    using "8.prems"(2) n by (intro "8.IH") simp_all
  then show ?case
    using parse_elements_step [of m _ v "CHR '']''" rest] by (simp add: n)
next
  case (9 v w vs)
  then obtain m where n: "n = Suc m" by (cases n) auto
  let ?tail = "stringify_elements (w # vs) @ CHR '']'' # rest"
  have "parse_value m (JSON_stringify v @ CHR '','' # ?tail) = Inr (v, CHR '','' # ?tail)"
    using "9.prems"(2) n by (intro "9.IH"(1)) simp_all
  moreover have "parse_elements m ?tail = Inr (w # vs, rest)"
    using "9.prems"(2) n by (intro "9.IH"(2)) simp_all
  ultimately show ?case
    using parse_elements_step [of m _ v "CHR '',''" ?tail]
    by (simp add: n cons_result_def)
next
  case 10
  then show ?case by simp
next
  case (11 k v)
  then obtain m where n: "n = Suc m" by (cases n) auto
  let ?after = "JSON_stringify v @ CHR ''}'' # rest"
  have key: "parse_chars (concat (map quote_char k) @ CHR 0x22 # CHR '':'' # ?after) =
             Inr (k, CHR '':'' # ?after)"
    by (rule parse_chars_quoted)
  have val: "parse_value m ?after = Inr (v, CHR ''}'' # rest)"
    using "11.prems"(2) n by (intro "11.IH") simp_all
  show ?case
    using parse_members_step [OF key val] by (simp add: n quote_def)
next
  case (12 k v m' kvs)
  then obtain m where n: "n = Suc m" by (cases n) auto
  let ?tail = "stringify_members (m' # kvs) @ CHR ''}'' # rest"
  let ?after = "JSON_stringify v @ CHR '','' # ?tail"
  have key: "parse_chars (concat (map quote_char k) @ CHR 0x22 # CHR '':'' # ?after) =
             Inr (k, CHR '':'' # ?after)"
    by (rule parse_chars_quoted)
  have val: "parse_value m ?after = Inr (v, CHR '','' # ?tail)"
    using "12.prems"(2) n by (intro "12.IH"(1)) simp_all
  have rec: "parse_members m ?tail = Inr (m' # kvs, rest)"
    using "12.prems"(2) n by (intro "12.IH"(2)) simp_all
  show ?case
    using parse_members_step [OF key val] rec by (simp add: n quote_def cons_result_def)
qed

lemma JSON_round_trip: "JSON_parse (JSON_stringify v) = Inr v"
proof -
  have "parse_value (2 * length (JSON_stringify v) + 2) (JSON_stringify v @ []) = Inr (v, [])"
    by (rule round_trip_fuel(1)) simp_all
  then show ?thesis by (simp add: JSON_parse_def skip_ws_def)
qed

lemma consumes_simps [simp]:
  "consumes (Inl e) s \<longleftrightarrow> e \<noteq> OutOfFuel"
  "consumes (Inr (x, r)) s \<longleftrightarrow> length r < length s"
  by (simp_all add: consumes_def)

lemma consumes_mono: "consumes res s' \<Longrightarrow> length s' \<le> length s \<Longrightarrow> consumes res s"
  by (auto simp: consumes_def split: sum.splits)

lemma consumes_cons_result: "consumes res s \<Longrightarrow> consumes (cons_result x res) s"
  by (auto simp: consumes_def cons_result_def split: sum.splits)

lemma consumes_map:
  "consumes res s \<Longrightarrow> consumes (case res of Inl e \<Rightarrow> Inl e | Inr (x, r) \<Rightarrow> Inr (f x, r)) s"
  by (auto simp: consumes_def split: sum.splits)

lemma length_skip_ws: "length (skip_ws s) \<le> length s"
  by (simp add: skip_ws_def length_dropWhile_le)

lemma skip_ws_Cons_length: "skip_ws s = c # cs \<Longrightarrow> length cs < length s"
  using length_skip_ws [of s] by simp

lemma parse_chars_step:
  "parse_chars (c # cs) = Inr ([], cs) \<or> parse_chars (c # cs) = Inl SyntaxError \<or>
   parse_chars (c # cs) = Inl OutsideModel \<or>
   (\<exists>d t. length t \<le> length cs \<and> parse_chars (c # cs) = cons_result d (parse_chars t))"
proof -
  consider (quote) "c = CHR 0x22"
    | (escape) "c \<noteq> CHR 0x22" "c = CHR 0x5C"
    | (other) "c \<noteq> CHR 0x22" "c \<noteq> CHR 0x5C"
    by blast
  then show ?thesis
  proof cases
    case quote
    then show ?thesis by simp
  next
    case other
    then have "parse_chars (c # cs) = Inl SyntaxError \<or>
               parse_chars (c # cs) = cons_result c (parse_chars cs)"
      by simp
    moreover have "length cs \<le> length cs" by simp
    ultimately show ?thesis by blast
  next
    case escape
    show ?thesis
    proof (cases cs)
      case Nil
      then show ?thesis using escape by simp
    next
      case (Cons e es)
      show ?thesis
      proof (cases "e = CHR ''u''")
        case False
        then have "parse_chars (c # cs) =
                   (case unescape e of None \<Rightarrow> Inl SyntaxError
                    | Some d \<Rightarrow> cons_result d (parse_chars es))"
          using escape Cons by simp
        then have "parse_chars (c # cs) = Inl SyntaxError \<or>
                   (\<exists>d. parse_chars (c # cs) = cons_result d (parse_chars es))"
          by (cases "unescape e") auto
        moreover have "length es \<le> length cs" using Cons by simp
        ultimately show ?thesis by blast
      next
        case True
        have u: "parse_chars (c # cs) =
                 (case es of
                    h1 # h2 # h3 # h4 # r \<Rightarrow>
                      (case hex4 h1 h2 h3 h4 of
                         None \<Rightarrow> Inl SyntaxError
                       | Some n \<Rightarrow> if n < 256 then cons_result (char_of n) (parse_chars r)
                                  else Inl OutsideModel)
                  | _ \<Rightarrow> Inl SyntaxError)"
          using escape Cons True by simp
        show ?thesis
        proof (cases "\<exists>h1 h2 h3 h4 r. es = h1 # h2 # h3 # h4 # r")
          case False
          then have "parse_chars (c # cs) = Inl SyntaxError"
            unfolding u by (auto split: list.splits)
          then show ?thesis by simp
        next
          case True
          then obtain h1 h2 h3 h4 r where es: "es = h1 # h2 # h3 # h4 # r" by blast
          have "parse_chars (c # cs) = Inl SyntaxError \<or> parse_chars (c # cs) = Inl OutsideModel \<or>
                (\<exists>d. parse_chars (c # cs) = cons_result d (parse_chars r))"
            unfolding u es by (cases "hex4 h1 h2 h3 h4") auto
          moreover have "length r \<le> length cs" using Cons es by simp
          ultimately show ?thesis by blast
        qed
      qed
    qed
  qed
qed

lemma parse_chars_consumes: "consumes (parse_chars s) (c # s)"
proof (induction "length s" arbitrary: s c rule: less_induct)
  case less
  show ?case
  proof (cases s)
    case Nil
    then show ?thesis by simp
  next
    case (Cons d ds)
    consider "parse_chars (d # ds) = Inr ([], ds)" | "parse_chars (d # ds) = Inl SyntaxError"
      | "parse_chars (d # ds) = Inl OutsideModel"
      | x t where "length t \<le> length ds" "parse_chars (d # ds) = cons_result x (parse_chars t)"
      using parse_chars_step [of d ds] by blast
    then show ?thesis
    proof cases
      case 4
      have "consumes (parse_chars t) (d # t)"
        using less [of t d] 4(1) Cons by simp
      then have "consumes (cons_result x (parse_chars t)) (c # s)"
        using 4(1) Cons by (intro consumes_cons_result) (auto intro: consumes_mono)
      then show ?thesis using 4(2) Cons by simp
    qed (simp_all add: Cons)
  qed
qed

lemma parse_digits_length: "length (snd (parse_digits s acc)) \<le> length s"
  by (induction s acc rule: parse_digits.induct) (auto intro: le_SucI)

lemma parse_unsigned_consumes: "consumes (parse_unsigned s) s"
proof (cases s)
  case Nil
  then show ?thesis by (simp add: parse_unsigned_def)
next
  case (Cons d ds)
  obtain n r where p: "parse_digits ds (10 * 0 + digit_val d) = (n, r)"
    by (cases "parse_digits ds (10 * 0 + digit_val d)") auto
  have "length r \<le> length ds"
    using parse_digits_length [of ds "10 * 0 + digit_val d"] p by simp
  then show ?thesis
    using Cons p by (cases r; cases ds) (auto simp: parse_unsigned_def)
qed

lemma parse_number_consumes: "consumes (parse_number s) s"
proof (cases s)
  case Nil
  then show ?thesis by (simp add: parse_number_def)
next
  case (Cons c cs)
  have a: "consumes (parse_unsigned cs) (c # cs)"
    using parse_unsigned_consumes [of cs] by (rule consumes_mono) simp
  have b: "consumes (parse_unsigned (c # cs)) (c # cs)"
    by (rule parse_unsigned_consumes)
  show ?thesis
    using a b Cons
    by (auto simp: parse_number_def consumes_def split: sum.splits)
qed

lemma literal_consumes: "w \<noteq> [] \<Longrightarrow> consumes (literal w v s) s"
  by (cases s) (auto simp: literal_def)

lemma fuel_enough:
  "(2 * length s < n \<longrightarrow> consumes (parse_value n s) s) \<and>
   (2 * length s + 1 < n \<longrightarrow> consumes (parse_elements n s) s) \<and>
   (2 * length s + 1 < n \<longrightarrow> consumes (parse_members n s) s)"
proof (induction n arbitrary: s)
  case 0
  show ?case by simp
next
  case (Suc n)
  have ih_value: "2 * length t < n \<Longrightarrow> consumes (parse_value n t) t" for t
    using Suc [of t] by simp
  have ih_elements: "2 * length t + 1 < n \<Longrightarrow> consumes (parse_elements n t) t" for t
    using Suc [of t] by simp
  have ih_members: "2 * length t + 1 < n \<Longrightarrow> consumes (parse_members n t) t" for t
    using Suc [of t] by simp
  have "consumes (parse_value (Suc n) s) s" if fuel: "2 * length s < Suc n"
  proof (cases "skip_ws s")
    case Nil
    then show ?thesis by (simp add: parse_value.simps(2))
  next
    case (Cons c cs)
    have len: "length (c # cs) \<le> length s"
      using length_skip_ws [of s] Cons by simp
    consider (obj) "c = CHR ''{''" | (arr) "c = CHR ''[''" | (str) "c = CHR 0x22"
      | (num) "c \<noteq> CHR ''{''" "c \<noteq> CHR ''[''" "c \<noteq> CHR 0x22" "c = CHR ''-'' \<or> is_digit c"
      | (lit) "c \<noteq> CHR ''{''" "c \<noteq> CHR ''[''" "c \<noteq> CHR 0x22" "\<not> (c = CHR ''-'' \<or> is_digit c)"
      by blast
    then show ?thesis
    proof cases
      case obj
      show ?thesis
      proof (cases "skip_ws cs")
        case Nil
        then show ?thesis using Cons obj by (simp add: parse_value.simps(2))
      next
        case inner: (Cons d ds)
        have "length ds < length cs" using inner by (rule skip_ws_Cons_length)
        then have short: "length ds < length s" using len by simp
        have m: "consumes (parse_members n cs) cs"
          using fuel len by (intro ih_members) simp
        have "consumes (parse_members n cs) s"
          using len by (intro consumes_mono [OF m]) simp
        then have "consumes (case parse_members n cs of Inl e \<Rightarrow> Inl e
                             | Inr (kvs, r) \<Rightarrow> Inr (JObject kvs, r)) s"
          by (rule consumes_map)
        then show ?thesis
          using Cons obj inner short by (simp add: parse_value.simps(2))
      qed
    next
      case arr
      show ?thesis
      proof (cases "skip_ws cs")
        case Nil
        then show ?thesis using Cons arr by (simp add: parse_value.simps(2))
      next
        case inner: (Cons d ds)
        have "length ds < length cs" using inner by (rule skip_ws_Cons_length)
        then have short: "length ds < length s" using len by simp
        have m: "consumes (parse_elements n cs) cs"
          using fuel len by (intro ih_elements) simp
        have "consumes (parse_elements n cs) s"
          using len by (intro consumes_mono [OF m]) simp
        then have "consumes (case parse_elements n cs of Inl e \<Rightarrow> Inl e
                             | Inr (vs, r) \<Rightarrow> Inr (JArray vs, r)) s"
          by (rule consumes_map)
        then show ?thesis
          using Cons arr inner short by (simp add: parse_value.simps(2))
      qed
    next
      case str
      have "consumes (parse_chars cs) s"
        using parse_chars_consumes [of cs c] len by (rule consumes_mono)
      then have "consumes (case parse_chars cs of Inl e \<Rightarrow> Inl e
                           | Inr (x, r) \<Rightarrow> Inr (JString x, r)) s"
        by (rule consumes_map)
      then show ?thesis using Cons str by (simp add: parse_value.simps(2))
    next
      case num
      have "consumes (parse_number (c # cs)) s"
        using parse_number_consumes [of "c # cs"] len by (rule consumes_mono)
      then have "consumes (case parse_number (c # cs) of Inl e \<Rightarrow> Inl e
                           | Inr (i, r) \<Rightarrow> Inr (JNumber i, r)) s"
        by (rule consumes_map)
      then show ?thesis using Cons num by (simp add: parse_value.simps(2))
    next
      case lit
      have l: "consumes (literal w v (c # cs)) s" if "w \<noteq> []" for w v
        using literal_consumes [OF that, of v "c # cs"] len by (rule consumes_mono)
      consider "c = CHR ''t''" | "c = CHR ''f''" | "c = CHR ''n''"
        | "c \<noteq> CHR ''t''" "c \<noteq> CHR ''f''" "c \<noteq> CHR ''n''"
        by blast
      then show ?thesis
      proof cases
        case 1
        then show ?thesis
          using Cons l [of "''true''" "JBool True"]
          by (simp add: parse_value.simps(2) is_digit_def)
      next
        case 2
        then show ?thesis
          using Cons l [of "''false''" "JBool False"]
          by (simp add: parse_value.simps(2) is_digit_def)
      next
        case 3
        then show ?thesis
          using Cons l [of "''null''" JNull]
          by (simp add: parse_value.simps(2) is_digit_def)
      next
        case 4
        then show ?thesis
          using Cons lit by (simp add: parse_value.simps(2))
      qed
    qed
  qed
  moreover have "consumes (parse_elements (Suc n) s) s" if fuel: "2 * length s + 1 < Suc n"
  proof (cases "parse_value n s")
    case (Inl e)
    have "consumes (parse_value n s) s" using fuel by (intro ih_value) simp
    then show ?thesis using Inl by (simp add: parse_elements.simps(2))
  next
    case (Inr p)
    obtain v r where p: "p = (v, r)" by (cases p)
    have "consumes (parse_value n s) s" using fuel by (intro ih_value) simp
    then have r: "length r < length s" using Inr p by simp
    show ?thesis
    proof (cases "skip_ws r")
      case Nil
      then show ?thesis using Inr p by (simp add: parse_elements.simps(2))
    next
      case (Cons c cs)
      have cs: "length cs < length r" using Cons by (rule skip_ws_Cons_length)
      have m: "consumes (parse_elements n cs) cs"
        using fuel r cs by (intro ih_elements) simp
      have "consumes (parse_elements n cs) s"
        using r cs by (intro consumes_mono [OF m]) simp
      then have "consumes (cons_result v (parse_elements n cs)) s"
        by (rule consumes_cons_result)
      then show ?thesis
        using Inr p Cons r cs by (simp add: parse_elements.simps(2))
    qed
  qed
  moreover have "consumes (parse_members (Suc n) s) s" if fuel: "2 * length s + 1 < Suc n"
  proof (cases "skip_ws s")
    case Nil
    then show ?thesis by (simp add: parse_members.simps(2))
  next
    case (Cons q qs)
    have len: "length (q # qs) \<le> length s"
      using length_skip_ws [of s] Cons by simp
    show ?thesis
    proof (cases "parse_chars qs")
      case (Inl e)
      have "consumes (parse_chars qs) (q # qs)" by (rule parse_chars_consumes)
      then show ?thesis using Cons Inl by (simp add: parse_members.simps(2))
    next
      case (Inr p)
      obtain k r where p: "p = (k, r)" by (cases p)
      have "consumes (parse_chars qs) (q # qs)" by (rule parse_chars_consumes)
      then have r: "length r < length s" using Inr p len by simp
      show ?thesis
      proof (cases "skip_ws r")
        case Nil
        then show ?thesis using Cons Inr p by (simp add: parse_members.simps(2))
      next
        case colon: (Cons c cs)
        have cs: "length cs < length r" using colon by (rule skip_ws_Cons_length)
        have val: "consumes (parse_value n cs) cs"
          using fuel r cs by (intro ih_value) simp
        show ?thesis
        proof (cases "parse_value n cs")
          case (Inl e)
          then show ?thesis
            using val Cons Inr p colon by (simp add: parse_members.simps(2))
        next
          case inner: (Inr p')
          obtain v r' where p': "p' = (v, r')" by (cases p')
          have r': "length r' < length cs" using val inner p' by simp
          show ?thesis
          proof (cases "skip_ws r'")
            case Nil
            then show ?thesis
              using Cons Inr p colon inner p' by (simp add: parse_members.simps(2))
          next
            case sep: (Cons d ds)
            have ds: "length ds < length r'" using sep by (rule skip_ws_Cons_length)
            have m: "consumes (parse_members n ds) ds"
              using fuel r cs r' ds by (intro ih_members) simp
            have "consumes (parse_members n ds) s"
              using r cs r' ds by (intro consumes_mono [OF m]) simp
            then have "consumes (cons_result (k, v) (parse_members n ds)) s"
              by (rule consumes_cons_result)
            then show ?thesis
              using Cons Inr p colon inner p' sep r cs r' ds
              by (simp add: parse_members.simps(2))
          qed
        qed
      qed
    qed
  qed
  ultimately show ?case by blast
qed

lemma JSON_parse_fuel: "JSON_parse s \<noteq> Inl OutOfFuel"
proof -
  have "consumes (parse_value (2 * length s + 2) s) s"
    using fuel_enough [of s "2 * length s + 2"] by simp
  then show ?thesis
    by (auto simp: JSON_parse_def consumes_def split: sum.splits)
qed

section \<open>Lemmas about the pages\<close>

lemma status_str_eqs [simp]:
  "status_str s = ''read'' \<longleftrightarrow> s = Read"
  "status_str s = ''reading'' \<longleftrightarrow> s = Reading"
  "status_str s = ''to-read'' \<longleftrightarrow> s = ToRead"
  by (cases s; simp)+

lemma status_str_inj: "status_str a = status_str b \<Longrightarrow> a = b"
  by (cases a; cases b) simp_all

lemma count_list_filter: "count_list (map f xs) v = length (filter (\<lambda>x. f x = v) xs)"
  by (induction xs) auto

lemma status_partition:
  "count_list (map status bs) Read + count_list (map status bs) Reading +
   count_list (map status bs) ToRead = length bs"
proof (induction bs)
  case Nil
  show ?case by simp
next
  case (Cons b bs)
  then show ?case by (cases "status b") simp_all
qed




















lemma id_newBook: "id' (newBook clk fd) = toString (now clk)"
  by (simp add: newBook_def form_data.defs Book.defs)

lemma books_add_all:
  "books (add_all adds st) =
     books st @ map (\<lambda>(clk, fd). newBook clk fd) (filter (\<lambda>(clk, fd). accepted fd) adds)"
proof (induction adds arbitrary: st)
  case Nil
  show ?case by simp
next
  case (Cons a adds)
  obtain clk fd where a: "a = (clk, fd)" by (cases a)
  show ?case
    by (simp add: a Cons.IH handleAddBook_def accepted_def)
qed

lemma ids_add_all:
  "map id' (books (add_all adds st)) =
     map id' (books st) @
     map (\<lambda>(clk, fd). toString (now clk)) (filter (\<lambda>(clk, fd). accepted fd) adds)"
  by (simp add: books_add_all comp_def case_prod_beta id_newBook)

lemma property_rating_book:
  "json_of_book b = JObject kvs \<Longrightarrow> property kvs ''rating'' = map_option JNumber (rating b)"
  by (cases "rating b") (auto simp: json_of_book_def property_def)

lemma book_of_json_of_book: "book_of_json (json_of_book b) = Some b"
  by (cases "rating b"; cases "status b")
     (simp_all add: json_of_book_def property_def status_of_str_def)

lemma property_same_members:
  assumes "distinct (map fst kvs)" and "distinct (map fst kvs')" and "set kvs' = set kvs"
  shows "property kvs' = property kvs"
proof -
  have "map_of (rev kvs') = map_of (rev kvs)"
    using assms by (subst map_of_inject_set) (simp_all add: rev_map [symmetric])
  then show ?thesis by (auto simp: property_def)
qed

lemma json_of_book_names_distinct:
  "json_of_book b = JObject kvs \<Longrightarrow> distinct (map fst kvs)"
  by (cases "rating b") (auto simp: json_of_book_def)

text \<open>
  The order of the members of a stored object has no effect on the book that is read
  from it.
\<close>

lemma book_of_json_any_order:
  assumes "json_of_book b = JObject kvs" and "set kvs' = set kvs" and "distinct (map fst kvs')"
  shows "book_of_json (JObject kvs') = Some b"
proof -
  have "property kvs' = property kvs"
    using json_of_book_names_distinct [OF assms(1)] assms(3,2) by (rule property_same_members)
  then have "book_of_json (JObject kvs') = book_of_json (JObject kvs)"
    by simp
  also have "\<dots> = Some b"
    using book_of_json_of_book [of b] assms(1) by simp
  finally show ?thesis .
qed

lemma books_of_json_of_books: "books_of_json (json_of_books bs) = Some bs"
proof -
  have "those (map book_of_json (map json_of_book bs)) = Some bs"
    by (induction bs) (simp_all add: book_of_json_of_book)
  then show ?thesis by (simp add: json_of_books_def)
qed

lemma rating_member:
  "json_of_book b = JObject kvs \<Longrightarrow> (''rating'' \<in> fst ` set kvs) = (rating b \<noteq> None)"
  by (cases "rating b") (auto simp: json_of_book_def)

lemma stringify_nonempty: "JSON_stringify v \<noteq> []"
  using stringify_head [of v] by auto

lemma load_after_save:
  "loadEffect (saveEffect bs) = (SetBooks (json_of_books bs), saveEffect bs)"
  by (simp add: loadEffect_def saveEffect_def stringify_nonempty JSON_round_trip)

lemma parse_value_bad_start:
  assumes "skip_ws s = c # cs" and "\<not> value_start c"
  shows "parse_value (Suc n) s = Inl SyntaxError"
  using assms by (simp add: parse_value.simps(2) value_start_def)

lemma JSON_parse_bad_start:
  assumes "skip_ws s = c # cs" and "\<not> value_start c"
  shows "JSON_parse s = Inl SyntaxError"
  using parse_value_bad_start [OF assms] by (simp add: JSON_parse_def)

lemma JSON_parse_blank: "skip_ws s = [] \<Longrightarrow> JSON_parse s = Inl SyntaxError"
  by (simp add: JSON_parse_def parse_value.simps(2))

lemma twinState_books:
  "books twinState = [newBook clock0 draft0, newBook clock0 (draft0\<lparr>title := ''Persuasion''\<rparr>)]"
  by (simp add: twinState_def Let_def handleAddBook_def openEditDialog_def initialState_def
      draft0_def)

lemma twinState_edit:
  "editingBook twinState = Some (newBook clock0 draft0)"
  "formData twinState = draft0\<lparr>title := ''Emma, annotated''\<rparr>"
  by (simp_all add: twinState_def Let_def handleAddBook_def openEditDialog_def initialState_def
      draft0_def)

section \<open>The claims\<close>

text \<open>
  C1. (As amended.) The id of a new record is the decimal text of \<open>Date.now()\<close> at the
  moment of the add, so for every sequence of successful add operations the ids of the
  collection are those it had before, followed by the texts of the clock readings. They
  are pairwise distinct when the ids were pairwise distinct before, the clock readings of
  the adds are pairwise distinct, and no reading's text is already an id of the
  collection.
\<close>

theorem C1_ids_unique_for_distinct_clock_readings:
  assumes "\<forall>(clk, fd) \<in> set adds. accepted fd"
    and "distinct (map id' (books st))"
    and "distinct (map (\<lambda>(clk, fd). now clk) adds)"
    and "\<forall>(clk, fd) \<in> set adds. toString (now clk) \<notin> id' ` set (books st)"
  shows "map id' (books (add_all adds st)) =
           map id' (books st) @ map (\<lambda>(clk, fd). toString (now clk)) adds \<and>
         distinct (map id' (books (add_all adds st)))"
proof -
  have all: "filter (\<lambda>(clk, fd). accepted fd) adds = adds"
    using assms(1) by (auto simp: filter_id_conv)
  have ids: "map id' (books (add_all adds st)) =
               map id' (books st) @ map (\<lambda>(clk, fd). toString (now clk)) adds"
    by (simp add: ids_add_all all)
  define ns where "ns = map (\<lambda>(clk, fd). now clk) adds"
  have new: "map (\<lambda>(clk, fd). toString (now clk)) adds = map toString ns"
    unfolding ns_def by (induction adds) auto
  have "inj_on toString (set ns)"
    by (rule inj_onI) (rule toString_inj)
  moreover have "distinct ns"
    using assms(3) by (simp add: ns_def)
  ultimately have "distinct (map toString ns)"
    by (simp add: distinct_map)
  then have d: "distinct (map (\<lambda>(clk, fd). toString (now clk)) adds)"
    by (simp add: new)
  have fresh: "toString (now clk) \<noteq> id' b"
    if "(clk, fd) \<in> set adds" "b \<in> set (books st)" for clk fd b
    using assms(4) that by force
  have "set (map id' (books st)) \<inter> set (map (\<lambda>(clk, fd). toString (now clk)) adds) = {}"
    using fresh by fastforce
  with assms(2) d ids show ?thesis by simp
qed

theorem C1_ids_unique_for_distinct_clock_readings_witness:
  "accepted draft0 \<and>
   map id' (books (add_all [(clock0, draft0), (clock0\<lparr>now := 1700000000001\<rparr>, draft0)]
                     ((initialState clock0)\<lparr>books := sampleBooks\<rparr>))) =
     [''1'', ''2'', ''1700000000000'', ''1700000000001''] \<and>
   distinct (map id' (books (add_all [(clock0, draft0), (clock0\<lparr>now := 1700000000001\<rparr>, draft0)]
                     ((initialState clock0)\<lparr>books := sampleBooks\<rparr>))))"
proof -
  let ?adds = "[(clock0, draft0), (clock0\<lparr>now := 1700000000001\<rparr>, draft0)]"
  let ?st = "(initialState clock0)\<lparr>books := sampleBooks\<rparr>"
  have "toString 1700000000000 = ''1700000000000''"
    by (simp add: toString_def digits.simps digit_char_def)
  then have t0: "toString (now clock0) = ''1700000000000''" by (simp add: clock0_def)
  have t1: "toString 1700000000001 = ''1700000000001''"
    by (simp add: toString_def digits.simps digit_char_def)
  have acc: "accepted draft0" by (simp add: accepted_def draft0_def)
  have ids: "map id' (books ?st) = [''1'', ''2'']" by (simp add: sampleBooks_def)
  have a: "\<forall>(clk, fd) \<in> set ?adds. accepted fd" using acc by simp
  have b: "distinct (map id' (books ?st))" by (simp add: sampleBooks_def)
  have c: "distinct (map (\<lambda>(clk, fd). now clk) ?adds)" by (simp add: clock0_def)
  have d: "\<forall>(clk, fd) \<in> set ?adds. toString (now clk) \<notin> id' ` set (books ?st)"
    using t0 t1 by (simp add: sampleBooks_def)
  show ?thesis
    using C1_ids_unique_for_distinct_clock_readings [OF a b c d] acc ids t0 t1 by simp
qed

theorem C1_same_millisecond_counterexample:
  "accepted draft0 \<and>
   map id' (books (add_all [(clock0, draft0), (clock0, draft0)] (initialState clock0))) =
     [''1700000000000'', ''1700000000000''] \<and>
   \<not> distinct (map id' (books (add_all [(clock0, draft0), (clock0, draft0)]
                                 (initialState clock0))))"
proof -
  have "toString 1700000000000 = ''1700000000000''"
    by (simp add: toString_def digits.simps digit_char_def)
  then have t0: "toString (now clock0) = ''1700000000000''" by (simp add: clock0_def)
  have acc: "accepted draft0" by (simp add: accepted_def draft0_def)
  have "map id' (books (add_all [(clock0, draft0), (clock0, draft0)] (initialState clock0))) =
          [''1700000000000'', ''1700000000000'']"
    unfolding ids_add_all using acc by (simp add: t0 initialState_def)
  with acc show ?thesis by simp
qed

text \<open>
  C2. (As amended.) When the load effect finds a text in the slot, the outcome of
  \<open>JSON.parse\<close> decides: if it throws, the exception leaves the effect, which sets no
  collection and writes nothing to the slot; if it returns a value, that value becomes
  the collection as it is. A text whose first character after white space cannot start
  a JSON value, and a text of white space only, make it throw \<open>SyntaxError\<close>. The
  sample records are set, and written to the slot, only when the slot is absent or holds
  the empty string.
\<close>

theorem C2_load_propagates_parse_error:
  "(s \<noteq> [] \<and> JSON_parse s = Inl e \<longrightarrow> loadEffect (Some s) = (Threw e, Some s)) \<and>
   (s \<noteq> [] \<and> JSON_parse s = Inr v \<longrightarrow> loadEffect (Some s) = (SetBooks v, Some s)) \<and>
   (skip_ws s = c # cs \<and> \<not> value_start c \<longrightarrow> loadEffect (Some s) = (Threw SyntaxError, Some s)) \<and>
   (s \<noteq> [] \<and> skip_ws s = [] \<longrightarrow> loadEffect (Some s) = (Threw SyntaxError, Some s)) \<and>
   loadEffect None = (SetBooks (json_of_books sampleBooks), saveEffect sampleBooks) \<and>
   loadEffect (Some []) = (SetBooks (json_of_books sampleBooks), saveEffect sampleBooks)"
proof -
  have bad: "loadEffect (Some s) = (Threw SyntaxError, Some s)"
    if "skip_ws s = c # cs" "\<not> value_start c"
  proof -
    have "s \<noteq> []" using that(1) by (auto simp: skip_ws_def)
    then show ?thesis
      using JSON_parse_bad_start [OF that] by (simp add: loadEffect_def)
  qed
  have blank: "loadEffect (Some s) = (Threw SyntaxError, Some s)"
    if "s \<noteq> []" "skip_ws s = []"
    using that JSON_parse_blank [of s] by (simp add: loadEffect_def)
  show ?thesis
    using bad blank by (simp add: loadEffect_def saveEffect_def)
qed

theorem C2_load_propagates_parse_error_witness:
  "''{oops'' \<noteq> [] \<and> JSON_parse ''{oops'' = Inl SyntaxError \<and>
   loadEffect (Some ''{oops'') = (Threw SyntaxError, Some ''{oops'') \<and>
   JSON_parse ''[]'' = Inr (JArray []) \<and>
   loadEffect (Some ''[]'') = (SetBooks (JArray []), Some ''[]'') \<and>
   skip_ws '' oops'' = CHR ''o'' # ''ops'' \<and> \<not> value_start (CHR ''o'') \<and>
   loadEffect (Some '' oops'') = (Threw SyntaxError, Some '' oops'') \<and>
   skip_ws ''  '' = [] \<and>
   loadEffect (Some ''  '') = (Threw SyntaxError, Some ''  '')"
proof -
  have p1: "JSON_parse ''{oops'' = Inl SyntaxError" by code_simp
  have p2: "JSON_parse ''[]'' = Inr (JArray [])" by code_simp
  have p3: "skip_ws '' oops'' = CHR ''o'' # ''ops''" "\<not> value_start (CHR ''o'')"
    by (simp_all add: skip_ws_def is_ws_def value_start_def is_digit_def)
  have p4: "skip_ws ''  '' = []" by (simp add: skip_ws_def is_ws_def)
  show ?thesis
    using C2_load_propagates_parse_error [of "''{oops''" SyntaxError "JArray []" "CHR ''o''" "''ops''"]
      C2_load_propagates_parse_error [of "''[]''" SyntaxError "JArray []" "CHR ''o''" "''ops''"]
      C2_load_propagates_parse_error [of "'' oops''" SyntaxError "JArray []" "CHR ''o''" "''ops''"]
      C2_load_propagates_parse_error [of "''  ''" SyntaxError "JArray []" "CHR ''o''" "''ops''"]
      p1 p2 p3 p4
    by simp
qed

theorem C2_corrupt_slot_counterexample:
  "loadEffect (Some ''{oops'') = (Threw SyntaxError, Some ''{oops'') \<and>
   fst (loadEffect (Some ''{oops'')) \<noteq> SetBooks (JArray []) \<and>
   loadEffect (Some ''7'') = (SetBooks (JNumber 7), Some ''7'') \<and>
   books_of_json (JNumber 7) = None"
proof -
  have p1: "JSON_parse ''{oops'' = Inl SyntaxError" by code_simp
  have p2: "JSON_parse ''7'' = Inr (JNumber 7)" by code_simp
  show ?thesis
    by (simp add: loadEffect_def p1 p2)
qed

text \<open>
  C3. For every collection and every draft in which the title, the author or the genre
  is the empty string, the add operation rejects the draft: the whole state of the page,
  and with it the collection, is left as it was. No record is appended and no record is
  modified.
\<close>

theorem C3_add_rejects_empty_field:
  assumes "title (formData st) = [] \<or> author (formData st) = [] \<or> genre (formData st) = []"
  shows "handleAddBook clk st = st \<and> books (handleAddBook clk st) = books st"
  using assms by (simp add: handleAddBook_def)

theorem C3_add_rejects_empty_field_witness:
  "(title (formData (initialState clock0)) = [] \<or> author (formData (initialState clock0)) = [] \<or>
    genre (formData (initialState clock0)) = []) \<and>
   handleAddBook clock0 (initialState clock0) = initialState clock0 \<and>
   books (handleAddBook clock0 (initialState clock0)) = []"
proof -
  have h: "title (formData (initialState clock0)) = [] \<or>
           author (formData (initialState clock0)) = [] \<or>
           genre (formData (initialState clock0)) = []"
    by (simp add: initialState_def resetForm_def)
  have "books (initialState clock0) = []" by (simp add: initialState_def)
  then show ?thesis
    using h C3_add_rejects_empty_field [OF h, of clock0] by simp
qed




text \<open>
  C5. (As amended.) For every collection that has a record with the id of the book
  being edited, at an index \<open>i\<close>, and every form whose title, author and genre are not
  empty, the edit keeps the length of the sequence; the record at index \<open>i\<close> keeps its id
  and its \<open>dateAdded\<close> and gets the seven fields of the form, and so does every record
  that has the same id; every record with another id is unchanged. When the ids of the
  collection are pairwise distinct, every record at another index is unchanged.
\<close>

theorem C5_update_frame:
  assumes "editingBook st = Some eb"
    and "title (formData st) \<noteq> []" and "author (formData st) \<noteq> []"
    and "genre (formData st) \<noteq> []"
    and "i < length (books st)" and "id' (books st ! i) = id' eb"
    and "bs' = books (handleEditBook clk st)"
  shows "length bs' = length (books st) \<and>
         id' (bs' ! i) = id' (books st ! i) \<and>
         dateAdded (bs' ! i) = dateAdded (books st ! i) \<and>
         title (bs' ! i) = title (formData st) \<and>
         author (bs' ! i) = author (formData st) \<and>
         genre (bs' ! i) = genre (formData st) \<and>
         year (bs' ! i) = year (formData st) \<and>
         description (bs' ! i) = description (formData st) \<and>
         status (bs' ! i) = status (formData st) \<and>
         rating (bs' ! i) = rating (formData st) \<and>
         (\<forall>j < length (books st). id' (books st ! j) \<noteq> id' eb \<longrightarrow> bs' ! j = books st ! j) \<and>
         (\<forall>j < length (books st). id' (books st ! j) = id' eb \<longrightarrow>
            bs' ! j =
              (books st ! j)\<lparr>title := title (formData st), author := author (formData st),
                genre := genre (formData st), year := year (formData st),
                description := description (formData st), status := status (formData st),
                rating := rating (formData st)\<rparr>) \<and>
         (distinct (map id' (books st)) \<longrightarrow>
            (\<forall>j < length (books st). j \<noteq> i \<longrightarrow> bs' ! j = books st ! j))"
proof -
  have bs': "bs' = map (\<lambda>book. if id' book = id' eb then spread book (formData st) else book)
                      (books st)"
    using assms(1-4,7) by (simp add: handleEditBook_def)
  have at_i: "bs' ! i = spread (books st ! i) (formData st)"
    using assms(5,6) by (simp add: bs')
  have other_id: "bs' ! j = books st ! j"
    if "j < length (books st)" "id' (books st ! j) \<noteq> id' eb" for j
    using that by (simp add: bs')
  have other_index: "bs' ! j = books st ! j"
    if d: "distinct (map id' (books st))" and j: "j < length (books st)" "j \<noteq> i" for j
  proof -
    have "(map id' (books st) ! j = map id' (books st) ! i) = (j = i)"
      using d j assms(5) by (intro nth_eq_iff_index_eq) simp_all
    then have "id' (books st ! j) \<noteq> id' eb"
      using j assms(5,6) by simp
    then show ?thesis using j(1) by (rule other_id [rotated])
  qed
  have same_id:
    "bs' ! j =
       (books st ! j)\<lparr>title := title (formData st), author := author (formData st),
         genre := genre (formData st), year := year (formData st),
         description := description (formData st), status := status (formData st),
         rating := rating (formData st)\<rparr>"
    if "j < length (books st)" "id' (books st ! j) = id' eb" for j
    using that by (simp add: bs' spread_def)
  have len: "length bs' = length (books st)"
    by (simp add: bs')
  have fields:
    "id' (bs' ! i) = id' (books st ! i)" "dateAdded (bs' ! i) = dateAdded (books st ! i)"
    "title (bs' ! i) = title (formData st)" "author (bs' ! i) = author (formData st)"
    "genre (bs' ! i) = genre (formData st)" "year (bs' ! i) = year (formData st)"
    "description (bs' ! i) = description (formData st)"
    "status (bs' ! i) = status (formData st)" "rating (bs' ! i) = rating (formData st)"
    by (simp_all add: at_i spread_def)
  show ?thesis
    using len fields other_id same_id other_index by blast
qed

theorem C5_update_frame_witness:
  "editingBook editState = Some dune \<and>
   title (formData editState) \<noteq> [] \<and> author (formData editState) \<noteq> [] \<and>
   genre (formData editState) \<noteq> [] \<and>
   1 < length (books editState) \<and> id' (books editState ! 1) = id' dune \<and>
   distinct (map id' (books editState)) \<and>
   length (books (handleEditBook clock0 editState)) = 2 \<and>
   id' (books (handleEditBook clock0 editState) ! 1) = ''2'' \<and>
   dateAdded (books (handleEditBook clock0 editState) ! 1) = ''2024-02-01'' \<and>
   title (books (handleEditBook clock0 editState) ! 1) = ''Dune Messiah'' \<and>
   rating (books (handleEditBook clock0 editState) ! 1) = Some 4 \<and>
   books (handleEditBook clock0 editState) ! 0 = gatsby"
proof -
  have e: "editingBook editState = Some dune"
    by (simp add: editState_def openEditDialog_def)
  have f: "formData editState =
             \<lparr>title = ''Dune Messiah'', author = ''Frank Herbert'', genre = ''Science Fiction'',
              year = 1969, description = '''', status = Read, rating = Some 4\<rparr>"
    by (simp add: editState_def)
  have b: "books editState = [gatsby, dune]"
    by (simp add: editState_def openEditDialog_def initialState_def gatsby_def dune_def
        sampleBooks_def)
  have t: "title (formData editState) \<noteq> []" and a: "author (formData editState) \<noteq> []"
    and g: "genre (formData editState) \<noteq> []"
    by (simp_all add: f)
  have i: "1 < length (books editState)" and d: "id' (books editState ! 1) = id' dune"
    by (simp_all add: b)
  have ids: "id' dune = ''2''" "dateAdded dune = ''2024-02-01''" "id' gatsby = ''1''"
    by (simp_all add: dune_def gatsby_def sampleBooks_def)
  have u: "distinct (map id' (books editState))"
    by (simp add: b ids)
  show ?thesis
    using C5_update_frame [OF e t a g i d refl, of clock0] e t a g i d ids u
    by (simp add: b f)
qed

theorem C5_shared_id_counterexample:
  "editingBook twinState = Some (books twinState ! 0) \<and>
   title (formData twinState) \<noteq> [] \<and> author (formData twinState) \<noteq> [] \<and>
   genre (formData twinState) \<noteq> [] \<and>
   length (books twinState) = 2 \<and>
   id' (books twinState ! 1) = id' (books twinState ! 0) \<and>
   title (books twinState ! 1) = ''Persuasion'' \<and>
   title (books (handleEditBook clock0 twinState) ! 1) = ''Emma, annotated'' \<and>
   books (handleEditBook clock0 twinState) ! 1 \<noteq> books twinState ! 1"
proof -
  have f: "title (formData twinState) = ''Emma, annotated''"
    "author (formData twinState) = ''Jane Austen''" "genre (formData twinState) = ''Fiction''"
    by (simp_all add: twinState_edit draft0_def)
  have ids: "id' (books twinState ! 1) = id' (books twinState ! 0)"
    by (simp add: twinState_books id_newBook)
  have before: "title (books twinState ! 1) = ''Persuasion''"
    by (simp add: twinState_books newBook_def form_data.defs Book.defs)
  have after: "title (books (handleEditBook clock0 twinState) ! 1) = ''Emma, annotated''"
    using f by (simp add: handleEditBook_def twinState_edit twinState_books id_newBook spread_def)
  have "books (handleEditBook clock0 twinState) ! 1 \<noteq> books twinState ! 1"
    using before after by auto
  then show ?thesis
    using f ids before after by (simp add: twinState_edit twinState_books)
qed

text \<open>
  C6. For every collection and every id, removing the id twice in a row gives the same
  collection as removing it once. Removing an id that no record of the collection has
  leaves the state of the page as it was; the operation has no error outcome.
\<close>

theorem C6_remove_idempotent:
  "handleDeleteBook i (handleDeleteBook i st) = handleDeleteBook i st \<and>
   (i \<notin> id' ` set (books st) \<longrightarrow> handleDeleteBook i st = st)"
proof -
  have twice: "handleDeleteBook i (handleDeleteBook i st) = handleDeleteBook i st"
    by (simp add: handleDeleteBook_def)
  have absent: "handleDeleteBook i st = st" if "i \<notin> id' ` set (books st)"
  proof -
    have "filter (\<lambda>book. id' book \<noteq> i) (books st) = books st"
      using that by (auto simp: filter_id_conv)
    then show ?thesis by (simp add: handleDeleteBook_def)
  qed
  from twice absent show ?thesis by blast
qed

theorem C6_remove_idempotent_witness:
  "''7'' \<notin> id' ` set sampleBooks \<and>
   handleDeleteBook ''7'' ((initialState clock0)\<lparr>books := sampleBooks\<rparr>) =
     (initialState clock0)\<lparr>books := sampleBooks\<rparr> \<and>
   books (handleDeleteBook ''1'' (handleDeleteBook ''1'' ((initialState clock0)\<lparr>books := sampleBooks\<rparr>))) =
     [dune]"
proof -
  let ?st = "(initialState clock0)\<lparr>books := sampleBooks\<rparr>"
  have absent: "''7'' \<notin> id' ` set (books ?st)"
    by (simp add: sampleBooks_def)
  have once: "books (handleDeleteBook ''1'' ?st) = [dune]"
    by (simp add: handleDeleteBook_def sampleBooks_def dune_def)
  show ?thesis
    using C6_remove_idempotent [of "''7''" ?st] C6_remove_idempotent [of "''1''" ?st]
      absent once
    by simp
qed

text \<open>
  C7. For every collection, the save effect writes a text from which the load effect
  reads the collection back: \<open>JSON.parse\<close> returns the value that was written, and that
  value is the same list of books, field for field and in the same order. In the stored
  form, the object of a record has a member \<open>rating\<close> exactly when the record has a
  rating, and then with the rating as its value.
\<close>

theorem C7_save_load_round_trip:
  "loadEffect (saveEffect bs) = (SetBooks (json_of_books bs), saveEffect bs) \<and>
   books_of_json (json_of_books bs) = Some bs \<and>
   (\<forall>b \<in> set bs. \<forall>kvs. json_of_book b = JObject kvs \<longrightarrow>
      (''rating'' \<in> fst ` set kvs) = (rating b \<noteq> None) \<and>
      property kvs ''rating'' = map_option JNumber (rating b))"
  using load_after_save [of bs] books_of_json_of_books [of bs]
    rating_member property_rating_book
  by blast

theorem C7_save_load_round_trip_witness:
  "loadEffect (saveEffect sampleBooks) = (SetBooks (json_of_books sampleBooks), saveEffect sampleBooks) \<and>
   books_of_json (json_of_books sampleBooks) = Some sampleBooks \<and>
   property
     [(''id'', JString ''2''), (''title'', JString ''Dune''), (''author'', JString ''Frank Herbert''),
      (''genre'', JString ''Science Fiction''), (''year'', JNumber 1965),
      (''description'', JString ''Epic science fiction novel about desert planet Arrakis.''),
      (''status'', JString ''reading''), (''dateAdded'', JString ''2024-02-01'')] ''rating'' = None \<and>
   rating dune = None \<and>
   rating gatsby = Some 5"
proof -
  have d: "dune \<in> set sampleBooks" by (simp add: dune_def sampleBooks_def)
  have j: "json_of_book dune =
     JObject [(''id'', JString ''2''), (''title'', JString ''Dune''), (''author'', JString ''Frank Herbert''),
      (''genre'', JString ''Science Fiction''), (''year'', JNumber 1965),
      (''description'', JString ''Epic science fiction novel about desert planet Arrakis.''),
      (''status'', JString ''reading''), (''dateAdded'', JString ''2024-02-01'')]"
    by (simp add: dune_def sampleBooks_def json_of_book_def)
  have r: "rating dune = None" "rating gatsby = Some 5"
    by (simp_all add: dune_def gatsby_def sampleBooks_def)
  show ?thesis
    using C7_save_load_round_trip [of sampleBooks] d j r by auto
qed

text \<open>
  C8. For every snapshot in which \<open>r\<close> records have the status read, \<open>g\<close> the status
  reading and \<open>t\<close> the status to-read, the three counts add up to the number \<open>N\<close> of
  records, and the statistics cards show \<open>N\<close>, \<open>r\<close>, \<open>g\<close> and \<open>t\<close>.
\<close>

theorem C8_summarize_counts:
  assumes "count_list (map status bs) Read = r"
    and "count_list (map status bs) Reading = g"
    and "count_list (map status bs) ToRead = t"
  shows "r + g + t = length bs \<and>
         summarize bs = \<lparr>total' = length bs, readCount = r, readingCount = g, toReadCount = t\<rparr>"
proof -
  have "r + g + t = length bs"
    using assms status_partition [of bs] by simp
  moreover have "summarize bs =
      \<lparr>total' = length bs, readCount = r, readingCount = g, toReadCount = t\<rparr>"
    using assms by (simp add: summarize_def count_list_filter)
  ultimately show ?thesis by simp
qed

theorem C8_summarize_counts_witness:
  "count_list (map status sampleBooks) Read = 1 \<and>
   count_list (map status sampleBooks) Reading = 1 \<and>
   count_list (map status sampleBooks) ToRead = 0 \<and>
   summarize sampleBooks = \<lparr>total' = 2, readCount = 1, readingCount = 1, toReadCount = 0\<rparr>"
proof -
  have r: "count_list (map status sampleBooks) Read = 1"
    and g: "count_list (map status sampleBooks) Reading = 1"
    and t: "count_list (map status sampleBooks) ToRead = 0"
    by (simp_all add: sampleBooks_def)
  have "length sampleBooks = 2" by (simp add: sampleBooks_def)
  then show ?thesis
    using C8_summarize_counts [OF r g t] r g t by simp
qed

text \<open>
  C9. On the table page, deleting a book keeps exactly the records whose title differs
  from the book's title and whose author differs from the book's author, in their
  order: every record that has the book's title or the book's author is removed, the
  book itself among them.
\<close>

theorem C9_deleteBook_title_and_author:
  "books_p (deleteBook book st) =
     filter (\<lambda>b. title_p b \<noteq> title_p book \<and> author_p b \<noteq> author_p book) (books_p st) \<and>
   subseq (books_p (deleteBook book st)) (books_p st) \<and>
   (\<forall>b \<in> set (books_p st).
      b \<in> set (books_p (deleteBook book st)) \<longleftrightarrow>
        title_p b \<noteq> title_p book \<and> author_p b \<noteq> author_p book) \<and>
   (\<forall>b \<in> set (books_p st).
      title_p b = title_p book \<or> author_p b = author_p book \<longrightarrow>
        b \<notin> set (books_p (deleteBook book st)))"
  by (auto simp: deleteBook_def Let_def)

theorem C9_deleteBook_title_and_author_witness:
  "books_p (deleteBook \<lparr>title_p = ''Emma'', author_p = ''Jane Austen'', rating_p = Some 4\<rparr>
              tableState) =
     [\<lparr>title_p = ''Dune'', author_p = ''Frank Herbert'', rating_p = Some 5\<rparr>]"
  using C9_deleteBook_title_and_author
    [of "\<lparr>title_p = ''Emma'', author_p = ''Jane Austen'', rating_p = Some 4\<rparr>" tableState]
  by (simp add: tableState_def)

text \<open>
  C10. On the table page, submitting the edit form of a book puts the submitted values
  in the place of every record that has the book's original title and its original
  author, and leaves every other record as it was, at its index.
\<close>

theorem C10_onSubmit_replaces_all_matches:
  "length (books_p (onSubmit book values st)) = length (books_p st) \<and>
   (\<forall>i < length (books_p st).
      books_p (onSubmit book values st) ! i =
        (if title_p (books_p st ! i) = title_p book \<and> author_p (books_p st ! i) = author_p book
         then values else books_p st ! i))"
  by (simp add: onSubmit_def Let_def)

theorem C10_onSubmit_replaces_all_matches_witness:
  "books_p (onSubmit \<lparr>title_p = ''Emma'', author_p = ''Jane Austen'', rating_p = Some 4\<rparr>
              \<lparr>title_p = ''Emma (2nd ed.)'', author_p = ''J. Austen'', rating_p = Some 5\<rparr>
              tableState) ! 0 =
     \<lparr>title_p = ''Emma (2nd ed.)'', author_p = ''J. Austen'', rating_p = Some 5\<rparr> \<and>
   books_p (onSubmit \<lparr>title_p = ''Emma'', author_p = ''Jane Austen'', rating_p = Some 4\<rparr>
              \<lparr>title_p = ''Emma (2nd ed.)'', author_p = ''J. Austen'', rating_p = Some 5\<rparr>
              tableState) ! 4 =
     \<lparr>title_p = ''Emma (2nd ed.)'', author_p = ''J. Austen'', rating_p = Some 5\<rparr> \<and>
   books_p (onSubmit \<lparr>title_p = ''Emma'', author_p = ''Jane Austen'', rating_p = Some 4\<rparr>
              \<lparr>title_p = ''Emma (2nd ed.)'', author_p = ''J. Austen'', rating_p = Some 5\<rparr>
              tableState) ! 1 =
     \<lparr>title_p = ''Emma'', author_p = ''Another Author'', rating_p = None\<rparr>"
proof -
  have len: "length (books_p tableState) = 5" by (simp add: tableState_def)
  show ?thesis
    using C10_onSubmit_replaces_all_matches
      [of "\<lparr>title_p = ''Emma'', author_p = ''Jane Austen'', rating_p = Some 4\<rparr>"
          "\<lparr>title_p = ''Emma (2nd ed.)'', author_p = ''J. Austen'', rating_p = Some 5\<rparr>"
          tableState]
    by (simp add: tableState_def)
qed

end
